theory Spec2Isabelle
  imports Complex_Main "HOL-Library.Sublist"
begin

section \<open>Attack_detecktion.py: a windowed intrusion detector\<close>

text \<open>
  The development embeds \<^verbatim>\<open>src/Python/Attack_detecktion.py\<close>: the tail source
  (\<^verbatim>\<open>tail_log\<close>), the record parser (\<^verbatim>\<open>parse_line\<close>), the per-window analysis
  (\<^verbatim>\<open>analyze_window\<close>) and the scheduler loop (\<^verbatim>\<open>main\<close>).

  A Python \<^verbatim>\<open>str\<close> is modelled by the \<^typ>\<open>string\<close> of the bytes of its UTF-8 encoding
  (the log is read as text, so every line has one; the messages of the source with
  non-ASCII letters are written out in bytes). Splitting at a comma, comparing,
  concatenating and testing for emptiness give the same on the encoding as on the code
  points; whitespace is handled through the encodings of the whitespace code points.
  Python integers are \<^typ>\<open>int\<close>. Functions of the standard library
  (\<^verbatim>\<open>datetime.fromisoformat\<close>, \<^verbatim>\<open>int\<close>, \<^verbatim>\<open>datetime.isoformat\<close>, the clocks) are
  parameters of the model: every theorem holds whatever they return.
\<close>

subsection \<open>Exceptions and log output\<close>

text \<open>An exception object; \<^verbatim>\<open>str(e)\<close> is its message.\<close>

datatype pyexn = ValueError string | OSError string | RuntimeError string

fun exn_str :: "pyexn \<Rightarrow> string" where
  "exn_str (ValueError m) = m"
| "exn_str (OSError m) = m"
| "exn_str (RuntimeError m) = m"

text \<open>One call of \<^verbatim>\<open>logging.info\<close>, \<^verbatim>\<open>logging.warning\<close> or \<^verbatim>\<open>logging.error\<close>.\<close>

datatype log_entry = LogInfo string | LogWarning string | LogError string

subsection \<open>String operations of Python used by the source\<close>

text \<open>
  The characters for which \<^verbatim>\<open>str.isspace\<close> holds, which are those that \<^verbatim>\<open>str.strip()\<close>
  removes, each as its UTF-8 encoding: U+0009 to U+000D, U+001C to U+0020, U+0085,
  U+00A0, U+1680, U+2000 to U+200A, U+2028, U+2029, U+202F, U+205F and U+3000.
\<close>

definition WHITESPACE :: "string list" where
  "WHITESPACE =
     [[CHR 0x09], [CHR 0x0A], [CHR 0x0B], [CHR 0x0C], [CHR 0x0D],
      [CHR 0x1C], [CHR 0x1D], [CHR 0x1E], [CHR 0x1F], [CHR 0x20],
      [CHR 0xC2, CHR 0x85], [CHR 0xC2, CHR 0xA0],
      [CHR 0xE1, CHR 0x9A, CHR 0x80],
      [CHR 0xE2, CHR 0x80, CHR 0x80], [CHR 0xE2, CHR 0x80, CHR 0x81],
      [CHR 0xE2, CHR 0x80, CHR 0x82], [CHR 0xE2, CHR 0x80, CHR 0x83],
      [CHR 0xE2, CHR 0x80, CHR 0x84], [CHR 0xE2, CHR 0x80, CHR 0x85],
      [CHR 0xE2, CHR 0x80, CHR 0x86], [CHR 0xE2, CHR 0x80, CHR 0x87],
      [CHR 0xE2, CHR 0x80, CHR 0x88], [CHR 0xE2, CHR 0x80, CHR 0x89],
      [CHR 0xE2, CHR 0x80, CHR 0x8A],
      [CHR 0xE2, CHR 0x80, CHR 0xA8], [CHR 0xE2, CHR 0x80, CHR 0xA9],
      [CHR 0xE2, CHR 0x80, CHR 0xAF],
      [CHR 0xE2, CHR 0x81, CHR 0x9F],
      [CHR 0xE3, CHR 0x80, CHR 0x80]]"

text \<open>
  Removing the characters of \<open>ws\<close> from the start of a text, as long as one is there. In
  UTF-8 no encoding of a character is the start of the encoding of another, and an
  encoding at the start or at the end of a text is that character.
\<close>

function drop_leading :: "string list \<Rightarrow> string \<Rightarrow> string" where
  "drop_leading ws s =
     (case find (\<lambda>w. w \<noteq> [] \<and> prefix w s) ws of
        None \<Rightarrow> s
      | Some w \<Rightarrow> drop_leading ws (drop (length w) s))"
  by pat_completeness auto
termination
proof (relation "measure (\<lambda>(ws, s). length s)")
  show "wf (measure (\<lambda>(ws, s). length s))" by simp
next
  fix ws :: "string list" and s w :: string
  assume "find (\<lambda>w. w \<noteq> [] \<and> prefix w s) ws = Some w"
  then have "w \<noteq> []" and "prefix w s"
    by (auto simp: find_Some_iff)
  then have "length (drop (length w) s) < length s"
    by (cases s) (auto simp: prefix_def)
  then show "((ws, drop (length w) s), (ws, s)) \<in> measure (\<lambda>(ws, s). length s)"
    by simp
qed

declare drop_leading.simps [simp del]

text \<open>
  \<^verbatim>\<open>s.strip()\<close>: leading and trailing whitespace removed; the trailing whitespace is the
  leading whitespace of the reversed text, with the encodings reversed.
\<close>

definition strip :: "string \<Rightarrow> string" where
  "strip s = rev (drop_leading (map rev WHITESPACE) (rev (drop_leading WHITESPACE s)))"

text \<open>
  \<^verbatim>\<open>s.split(sep)\<close> for a one-character separator: the fields between the
  separators, empty fields kept; the empty string gives one empty field.
\<close>

fun str_split :: "char \<Rightarrow> string \<Rightarrow> string list" where
  "str_split sep [] = [[]]"
| "str_split sep (c # cs) =
     (if c = sep then [] # str_split sep cs
      else (case str_split sep cs of
              [] \<Rightarrow> [[c]]
            | p # ps \<Rightarrow> (c # p) # ps))"

subsection \<open>The record parser\<close>

text \<open>
  A parsed record is the tuple \<^verbatim>\<open>(ts, src, dst, port, proto)\<close>. The type of the
  timestamp object is a parameter \<^typ>\<open>'ts\<close>.
\<close>

type_synonym 'ts conn = "'ts \<times> string \<times> string \<times> int \<times> string"

text \<open>
  The body of the \<^verbatim>\<open>try\<close> block of \<^verbatim>\<open>parse_line\<close>, on the five trimmed fields:
  \<^verbatim>\<open>fromisoformat\<close> and \<^verbatim>\<open>int\<close> may raise, \<open>Inl\<close> is the exception.
\<close>

definition parse_fields ::
  "(string \<Rightarrow> pyexn + 'ts) \<Rightarrow> (string \<Rightarrow> pyexn + int) \<Rightarrow> string list \<Rightarrow> pyexn + 'ts conn"
where
  "parse_fields fromisoformat int_of_str parts =
     (case fromisoformat (parts ! 0) of
        Inl e \<Rightarrow> Inl e
      | Inr ts \<Rightarrow>
          (let src = parts ! 1; dst = parts ! 2 in
           case int_of_str (parts ! 3) of
             Inl e \<Rightarrow> Inl e
           | Inr port \<Rightarrow>
               (let proto = parts ! 4 in Inr (ts, src, dst, port, proto))))"

text \<open>
  \<^verbatim>\<open>parse_line(line)\<close>: the warnings it logs and the value it returns (\<open>None\<close> is
  Python's \<^verbatim>\<open>None\<close>). The \<^verbatim>\<open>except Exception\<close> clause turns every exception of the
  body into a warning and \<^verbatim>\<open>None\<close>.
\<close>

definition parse_line ::
  "(string \<Rightarrow> pyexn + 'ts) \<Rightarrow> (string \<Rightarrow> pyexn + int) \<Rightarrow> string
     \<Rightarrow> log_entry list \<times> 'ts conn option"
where
  "parse_line fromisoformat int_of_str line =
     (let parts = map strip (str_split CHR '','' line) in
      if length parts \<noteq> 5 then
        ([LogWarning (''Ogiltigt format, hoppar '' @ [CHR 0xC3, CHR 0xB6] @ ''ver: '' @ line)], None)
      else
        (case parse_fields fromisoformat int_of_str parts of
           Inr rec \<Rightarrow> ([], Some rec)
         | Inl e \<Rightarrow> ([LogWarning (''Parsingfel: '' @ exn_str e @ '' -- '' @ line)], None)))"

subsection \<open>The tail source\<close>

text \<open>
  \<^verbatim>\<open>tail_log\<close> is a generator around an endless \<^verbatim>\<open>readline\<close> loop. The model runs
  the loop over the results of a finite sequence of \<^verbatim>\<open>readline\<close> calls made after
  the seek to the end of the file: \<open>Inr line\<close> is the text read (empty when nothing
  new is there: the loop sleeps and reads again), \<open>Inl e\<close> is a read that raises, which
  is logged and ends the generator. The result is the lines yielded, in order, and the
  log output.
\<close>

fun tail_log :: "(pyexn + string) list \<Rightarrow> string list \<times> log_entry list" where
  "tail_log [] = ([], [])"
| "tail_log (Inl e # reads) =
     ([], [LogError (''Fel vid l'' @ [CHR 0xC3, CHR 0xA4] @ ''sning av loggfil: '' @ exn_str e)])"
| "tail_log (Inr line # reads) =
     (if line = [] then tail_log reads
      else (let (ys, lg) = tail_log reads in (strip line # ys, lg)))"

subsection \<open>Configuration\<close>

definition ANALYSIS_INTERVAL :: real where
  "ANALYSIS_INTERVAL = 300"

definition CONNECTION_THRESHOLD :: int where
  "CONNECTION_THRESHOLD = 100"

text \<open>\<^verbatim>\<open>set(range(1, 1024)) - {22, 80, 443}\<close>\<close>

definition UNUSUAL_PORTS :: "int set" where
  "UNUSUAL_PORTS = {1..<1024} - {22, 80, 443}"

definition VOLUME_THRESHOLD :: int where
  "VOLUME_THRESHOLD = 100"

subsection \<open>The analysis of one window\<close>

text \<open>
  A \<^verbatim>\<open>Counter\<close> is a dictionary; its \<^verbatim>\<open>items()\<close> come in insertion order, so it is
  an association list in that order. \<^verbatim>\<open>c[k] += 1\<close> reads 0 for a missing key and
  stores the new key last.
\<close>

type_synonym 'k counter = "('k \<times> int) list"

fun counter_incr :: "'k \<Rightarrow> 'k counter \<Rightarrow> 'k counter" where
  "counter_incr k [] = [(k, 0 + 1)]"
| "counter_incr k ((k', n) # c) =
     (if k = k' then (k', n + 1) # c else (k', n) # counter_incr k c)"

text \<open>
  The port column of an event holds the integer port of a record in an unusual-port
  event and the empty string in a threshold event.
\<close>

datatype pyval = PInt int | PStr string

text \<open>
  An event is the tuple
  \<^verbatim>\<open>(timestamp, src, dst, port, proto, count, reason)\<close>.
\<close>

type_synonym event = "string \<times> string \<times> string \<times> pyval \<times> string \<times> int \<times> string"

fun ev_ts :: "event \<Rightarrow> string" where
  "ev_ts (t, src, dst, port, proto, cnt, reason) = t"

fun ev_src :: "event \<Rightarrow> string" where
  "ev_src (t, src, dst, port, proto, cnt, reason) = src"

fun ev_dst :: "event \<Rightarrow> string" where
  "ev_dst (t, src, dst, port, proto, cnt, reason) = dst"

fun ev_count :: "event \<Rightarrow> int" where
  "ev_count (t, src, dst, port, proto, cnt, reason) = cnt"

fun ev_reason :: "event \<Rightarrow> string" where
  "ev_reason (t, src, dst, port, proto, cnt, reason) = reason"

type_synonym 'ts port_flag = "'ts \<times> string \<times> string \<times> int \<times> string \<times> string"

type_synonym flag = "string \<times> int \<times> string"

text \<open>Step 1: the loop over the records, on \<^verbatim>\<open>(src_count, dst_count, port_flags)\<close>.\<close>

fun count_records ::
  "'ts conn list \<Rightarrow> string counter \<times> (string \<times> string) counter \<times> 'ts port_flag list
     \<Rightarrow> string counter \<times> (string \<times> string) counter \<times> 'ts port_flag list"
where
  "count_records [] st = st"
| "count_records ((ts, src, dst, port, proto) # records) (src_count, dst_count, port_flags) =
     count_records records
       (counter_incr src src_count,
        counter_incr (src, dst) dst_count,
        (if port \<in> UNUSUAL_PORTS
         then port_flags @ [(ts, src, dst, port, proto, ''Unusual port'')]
         else port_flags))"

text \<open>Step 2: the two loops over the counters, appending to \<^verbatim>\<open>flagged\<close>.\<close>

fun flag_sources :: "string counter \<Rightarrow> flag list \<Rightarrow> flag list" where
  "flag_sources [] flagged = flagged"
| "flag_sources ((src, cnt) # items) flagged =
     flag_sources items
       (if cnt > CONNECTION_THRESHOLD
        then flagged @ [(src, cnt, ''High connection count'')]
        else flagged)"

fun flag_volumes :: "(string \<times> string) counter \<Rightarrow> flag list \<Rightarrow> flag list" where
  "flag_volumes [] flagged = flagged"
| "flag_volumes (((src, dst), cnt) # items) flagged =
     flag_volumes items
       (if cnt > VOLUME_THRESHOLD
        then flagged @ [(src, cnt, ''High volume to '' @ dst)]
        else flagged)"

text \<open>
  Step 3: the two loops that build \<^verbatim>\<open>events\<close>. Each threshold event reads the clock
  once: \<open>now i\<close> is what call number \<open>i\<close> of
  \<^verbatim>\<open>datetime.datetime.now(datetime.timezone.utc)\<close> returns within this analysis.
\<close>

fun port_events :: "('ts \<Rightarrow> string) \<Rightarrow> 'ts port_flag list \<Rightarrow> event list \<Rightarrow> event list" where
  "port_events isoformat [] events = events"
| "port_events isoformat ((ts, src, dst, port, proto, reason) # port_flags) events =
     port_events isoformat port_flags
       (events @ [(isoformat ts, src, dst, PInt port, proto, 1, reason)])"

fun flagged_events ::
  "('ts \<Rightarrow> string) \<Rightarrow> (nat \<Rightarrow> 'ts) \<Rightarrow> nat \<Rightarrow> flag list \<Rightarrow> event list \<Rightarrow> event list"
where
  "flagged_events isoformat now i [] events = events"
| "flagged_events isoformat now i ((src, cnt, reason) # flagged) events =
     flagged_events isoformat now (Suc i) flagged
       (events @ [(isoformat (now i), src, [], PStr [], [], cnt, reason)])"

definition analyze_window ::
  "('ts \<Rightarrow> string) \<Rightarrow> (nat \<Rightarrow> 'ts) \<Rightarrow> 'ts conn list \<Rightarrow> event list"
where
  "analyze_window isoformat now records =
     (case count_records records ([], [], []) of
        (src_count, dst_count, port_flags) \<Rightarrow>
          (let flagged = flag_sources src_count [];
               flagged = flag_volumes dst_count flagged;
               events = port_events isoformat port_flags [];
               events = flagged_events isoformat now 0 flagged events
           in events))"

subsection \<open>The scheduler loop\<close>

text \<open>
  \<^verbatim>\<open>write_report\<close>, \<^verbatim>\<open>block_ip\<close> and \<^verbatim>\<open>send_email\<close> do file, process and network
  I/O. The loop calls them inside its own \<^verbatim>\<open>try\<close>, so they are parameters here:
  each call returns (\<open>Inr ()\<close>) or raises (\<open>Inl e\<close>). A \<open>call\<close> records that the
  loop made the call.
\<close>

datatype call = WriteReport "event list" | BlockIp string | SendEmail string string

record collaborators =
  write_report :: "event list \<Rightarrow> pyexn + unit"
  block_ip :: "string \<Rightarrow> pyexn + unit"
  send_email :: "string \<Rightarrow> string \<Rightarrow> pyexn + unit"

text \<open>\<^verbatim>\<open>str(n)\<close> for a length, and \<^verbatim>\<open>sep.join(xs)\<close>.\<close>

fun str_nat :: "nat \<Rightarrow> string" where
  "str_nat n =
     (if n < 10 then [char_of (48 + n)]
      else str_nat (n div 10) @ [char_of (48 + n mod 10)])"

declare str_nat.simps [simp del]

fun str_join :: "string \<Rightarrow> string list \<Rightarrow> string" where
  "str_join sep [] = []"
| "str_join sep [x] = x"
| "str_join sep (x # y # ys) = x @ sep @ str_join sep (y # ys)"

text \<open>
  \<^verbatim>\<open>for ip in unique_ips: block_ip(ip)\<close>: the calls made, and the exception of the
  first call that raises, which ends the loop.
\<close>

fun block_each :: "(string \<Rightarrow> pyexn + unit) \<Rightarrow> string list \<Rightarrow> call list \<times> (pyexn + unit)" where
  "block_each blk [] = ([], Inr ())"
| "block_each blk (ip # ips) =
     (case blk ip of
        Inl e \<Rightarrow> ([BlockIp ip], Inl e)
      | Inr u \<Rightarrow> (case block_each blk ips of (cs, r) \<Rightarrow> (BlockIp ip # cs, r)))"

text \<open>
  The branch \<^verbatim>\<open>if events:\<close> of the loop. \<^verbatim>\<open>unique_ips\<close> is a Python set; the
  order in which it is iterated is not fixed by the language, the model takes the
  sources in the order of \<open>remdups\<close>.
\<close>

definition respond :: "collaborators \<Rightarrow> event list \<Rightarrow> call list \<times> (pyexn + unit)" where
  "respond env events =
     (case write_report env events of
        Inl e \<Rightarrow> ([WriteReport events], Inl e)
      | Inr u \<Rightarrow>
          (let unique_ips = remdups (map ev_src events) in
           case block_each (block_ip env) unique_ips of
             (cs, Inl e) \<Rightarrow> (WriteReport events # cs, Inl e)
           | (cs, Inr u) \<Rightarrow>
               (let subject = ''IDS Alert: '' @ str_nat (length unique_ips) @ '' IPs flagged'';
                    body = ''Misst'' @ [CHR 0xC3, CHR 0xA4] @ ''nkta IPs:'' @ [CHR 0x0A]
                           @ str_join [CHR 0x0A] unique_ips
                in (WriteReport events # cs @ [SendEmail subject body],
                    send_email env subject body))))"

text \<open>
  The body of the \<^verbatim>\<open>try\<close> of the loop on the buffer: the collaborator calls made,
  the lines logged, and whether the body finished or raised.
\<close>

definition window_actions ::
  "collaborators \<Rightarrow> ('ts \<Rightarrow> string) \<Rightarrow> (nat \<Rightarrow> 'ts) \<Rightarrow> 'ts conn list
     \<Rightarrow> call list \<times> log_entry list \<times> (pyexn + unit)"
where
  "window_actions env isoformat now buf =
     (let events = analyze_window isoformat now buf in
      if events \<noteq> [] then
        (case respond env events of (cs, r) \<Rightarrow> (cs, [], r))
      else ([], [LogInfo (''Inga misst'' @ [CHR 0xC3, CHR 0xA4] @ ''nkta aktiviteter.'')], Inr ()))"

text \<open>
  The state of the loop: the buffer, the start of the window, and what the loop has
  logged and called so far. Clock readings of \<^verbatim>\<open>time.time()\<close> are real numbers.
\<close>

record 'ts sched =
  buffer :: "'ts conn list"
  start :: real
  logged :: "log_entry list"
  calls :: "call list"

text \<open>
  What one iteration of \<^verbatim>\<open>for line in log_iter\<close> reads from outside: the line, the
  reading of \<^verbatim>\<open>time.time()\<close> in the test of the window, the reading that restarts
  the window, and the readings of \<^verbatim>\<open>datetime.now\<close> during the analysis.
\<close>

record 'ts arrival =
  line :: string
  clock_check :: real
  clock_reset :: real
  utcnow :: "nat \<Rightarrow> 'ts"

definition main_step ::
  "collaborators \<Rightarrow> (string \<Rightarrow> pyexn + 'ts) \<Rightarrow> (string \<Rightarrow> pyexn + int) \<Rightarrow> ('ts \<Rightarrow> string)
     \<Rightarrow> 'ts sched \<Rightarrow> 'ts arrival \<Rightarrow> 'ts sched"
where
  "main_step env fromisoformat int_of_str isoformat st a =
     (case parse_line fromisoformat int_of_str (line a) of
        (warnings, rec) \<Rightarrow>
          (let buf = (case rec of Some r \<Rightarrow> buffer st @ [r] | None \<Rightarrow> buffer st);
               lg = logged st @ warnings
           in if clock_check a - start st \<ge> ANALYSIS_INTERVAL then
                (case window_actions env isoformat (utcnow a) buf of
                   (cs, infos, r) \<Rightarrow>
                     \<lparr>buffer = [],
                      start = clock_reset a,
                      logged = lg @ infos @
                        (case r of
                           Inl e \<Rightarrow> [LogError (''Fel i analys/respons: '' @ exn_str e)]
                         | Inr u \<Rightarrow> []),
                      calls = calls st @ cs\<rparr>)
              else st\<lparr>buffer := buf, logged := lg\<rparr>))"

text \<open>
  \<^verbatim>\<open>main\<close> on a finite run of arrivals; \<open>t0\<close> is the first reading of
  \<^verbatim>\<open>time.time()\<close>.
\<close>

definition main_loop ::
  "collaborators \<Rightarrow> (string \<Rightarrow> pyexn + 'ts) \<Rightarrow> (string \<Rightarrow> pyexn + int) \<Rightarrow> ('ts \<Rightarrow> string)
     \<Rightarrow> real \<Rightarrow> 'ts arrival list \<Rightarrow> 'ts sched"
where
  "main_loop env fromisoformat int_of_str isoformat t0 arrivals =
     foldl (main_step env fromisoformat int_of_str isoformat)
       \<lparr>buffer = [], start = t0, logged = [], calls = []\<rparr> arrivals"

subsection \<open>Library functions at concrete inputs\<close>

text \<open>
  The library parameters are instantiated, where a concrete run is needed, by the
  functions below. \<open>fromisoformat_sec\<close> is \<^verbatim>\<open>datetime.fromisoformat\<close> on the texts
  \<^verbatim>\<open>YYYY-MM-DDTHH:MM:SS\<close> (the format of the log, where the parsed object is
  represented by that text and \<^verbatim>\<open>isoformat\<close> gives it back); the library accepts
  further ISO forms, which this function refuses. \<open>int_ascii\<close> is \<^verbatim>\<open>int(s)\<close> on
  ASCII text: surrounding whitespace, an optional sign, decimal digits with single
  underscores between them. The messages of the exceptions are abbreviated.
\<close>

definition is_digit :: "char \<Rightarrow> bool" where
  "is_digit c \<longleftrightarrow> 48 \<le> (of_char c :: nat) \<and> (of_char c :: nat) \<le> 57"

definition dec_val :: "string \<Rightarrow> int" where
  "dec_val ds = foldl (\<lambda>a c. 10 * a + (int (of_char c) - 48)) 0 ds"

definition days_in_month :: "int \<Rightarrow> int \<Rightarrow> int" where
  "days_in_month y m =
     (if m = 2 then (if y mod 4 = 0 \<and> (y mod 100 \<noteq> 0 \<or> y mod 400 = 0) then 29 else 28)
      else if m = 4 \<or> m = 6 \<or> m = 9 \<or> m = 11 then 30 else 31)"

definition fromisoformat_sec :: "string \<Rightarrow> pyexn + string" where
  "fromisoformat_sec s =
     (let y = dec_val (take 4 s); m = dec_val (take 2 (drop 5 s)); d = dec_val (take 2 (drop 8 s));
          hh = dec_val (take 2 (drop 11 s)); mm = dec_val (take 2 (drop 14 s));
          ss = dec_val (take 2 (drop 17 s))
      in if length s = 19
            \<and> list_all is_digit (take 4 s @ take 2 (drop 5 s) @ take 2 (drop 8 s)
                 @ take 2 (drop 11 s) @ take 2 (drop 14 s) @ take 2 (drop 17 s))
            \<and> s ! 4 = CHR ''-'' \<and> s ! 7 = CHR ''-'' \<and> s ! 10 = CHR ''T''
            \<and> s ! 13 = CHR '':'' \<and> s ! 16 = CHR '':''
            \<and> 1 \<le> y \<and> 1 \<le> m \<and> m \<le> 12 \<and> 1 \<le> d \<and> d \<le> days_in_month y m
            \<and> hh \<le> 23 \<and> mm \<le> 59 \<and> ss \<le> 59
         then Inr s
         else Inl (ValueError (''Invalid isoformat string: '' @ s)))"

definition isoformat_sec :: "string \<Rightarrow> string" where
  "isoformat_sec ts = ts"

fun digits_ok :: "string \<Rightarrow> bool" where
  "digits_ok [] = False"
| "digits_ok [c] = is_digit c"
| "digits_ok (c # u # cs) =
     (is_digit c \<and> (if u = CHR ''_'' then digits_ok cs else digits_ok (u # cs)))"

definition int_ascii :: "string \<Rightarrow> pyexn + int" where
  "int_ascii s =
     (let t = strip s;
          (sgn, ds) = (case t of
                         [] \<Rightarrow> (1, [])
                       | c # cs \<Rightarrow> if c = CHR ''-'' then (- 1, cs)
                                   else if c = CHR ''+'' then (1, cs) else (1, t))
      in if digits_ok ds then Inr (sgn * dec_val (filter (\<lambda>c. c \<noteq> CHR ''_'') ds))
         else Inl (ValueError (''invalid literal for int() with base 10: '' @ s)))"

text \<open>A clock for concrete runs: every reading of \<^verbatim>\<open>datetime.now\<close> gives the same instant.\<close>

definition clock_fixed :: "nat \<Rightarrow> string" where
  "clock_fixed i = ''2025-05-14T12:05:00+00:00''"

text \<open>Collaborators for a concrete run in which the report cannot be written.\<close>

definition failing_report :: collaborators where
  "failing_report =
     \<lparr>write_report = (\<lambda>events. Inl (OSError ''disk full'')),
      block_ip = (\<lambda>ip. Inr ()),
      send_email = (\<lambda>subject body. Inr ())\<rparr>"

subsection \<open>The loops of the analysis as comprehensions\<close>

text \<open>
  The proofs work on closed forms of the loops: a counter filled from a list of keys,
  the flags of step 2 as filtered counters, and the events of step 3 as mapped lists.
  The lemmas of the next section show that the loops compute them.
\<close>

primrec count_keys :: "'k list \<Rightarrow> 'k counter \<Rightarrow> 'k counter" where
  "count_keys [] c = c"
| "count_keys (k # ks) c = count_keys ks (counter_incr k c)"

definition conn_flags :: "'ts conn list \<Rightarrow> flag list" where
  "conn_flags rs =
     map (\<lambda>(src, cnt). (src, cnt, ''High connection count''))
       (filter (\<lambda>(src, cnt). cnt > CONNECTION_THRESHOLD)
          (count_keys (map (\<lambda>(ts, src, dst, port, proto). src) rs) []))"

definition vol_flags :: "'ts conn list \<Rightarrow> flag list" where
  "vol_flags rs =
     map (\<lambda>((src, dst), cnt). (src, cnt, ''High volume to '' @ dst))
       (filter (\<lambda>(k, cnt). cnt > VOLUME_THRESHOLD)
          (count_keys (map (\<lambda>(ts, src, dst, port, proto). (src, dst)) rs) []))"

definition stamp :: "('ts \<Rightarrow> string) \<Rightarrow> (nat \<Rightarrow> 'ts) \<Rightarrow> nat \<times> flag \<Rightarrow> event" where
  "stamp fmt now = (\<lambda>(j, src, cnt, reason). (fmt (now j), src, [], PStr [], [], cnt, reason))"

definition unusual_events :: "('ts \<Rightarrow> string) \<Rightarrow> 'ts conn list \<Rightarrow> event list" where
  "unusual_events fmt rs =
     map (\<lambda>(ts, src, dst, port, proto). (fmt ts, src, dst, PInt port, proto, 1, ''Unusual port''))
       (filter (\<lambda>(ts, src, dst, port, proto). port \<in> UNUSUAL_PORTS) rs)"

definition conn_events :: "('ts \<Rightarrow> string) \<Rightarrow> (nat \<Rightarrow> 'ts) \<Rightarrow> 'ts conn list \<Rightarrow> event list" where
  "conn_events fmt now rs = map (stamp fmt now) (zip [0 ..< length (conn_flags rs)] (conn_flags rs))"

definition vol_events :: "('ts \<Rightarrow> string) \<Rightarrow> (nat \<Rightarrow> 'ts) \<Rightarrow> 'ts conn list \<Rightarrow> event list" where
  "vol_events fmt now rs =
     map (stamp fmt now)
       (zip [length (conn_flags rs) ..< length (conn_flags rs) + length (vol_flags rs)] (vol_flags rs))"

section \<open>Properties of the analysis\<close>

subsection \<open>The loops compute their closed forms\<close>

lemma port_events_eq:
  "port_events fmt pf evs =
     evs @ map (\<lambda>(ts, src, dst, port, proto, reason). (fmt ts, src, dst, PInt port, proto, 1, reason)) pf"
  by (induction fmt pf evs rule: port_events.induct) auto

lemma flagged_events_eq:
  "flagged_events fmt now i fl evs =
     evs @ map (\<lambda>(j, src, cnt, reason). (fmt (now j), src, [], PStr [], [], cnt, reason))
             (zip [i ..< i + length fl] fl)"
proof (induction fmt now i fl evs rule: flagged_events.induct)
  case (1 isoformat now i events)
  then show ?case by simp
next
  case (2 isoformat now i src cnt reason flagged events)
  have "[i ..< i + length ((src, cnt, reason) # flagged)] = i # [Suc i ..< Suc i + length flagged]"
    by (simp add: upt_rec)
  with 2 show ?case by simp
qed

lemma flag_sources_eq:
  "flag_sources items fl =
     fl @ map (\<lambda>(src, cnt). (src, cnt, ''High connection count''))
            (filter (\<lambda>(src, cnt). cnt > CONNECTION_THRESHOLD) items)"
  by (induction items fl rule: flag_sources.induct) auto

lemma flag_volumes_eq:
  "flag_volumes items fl =
     fl @ map (\<lambda>((src, dst), cnt). (src, cnt, ''High volume to '' @ dst))
            (filter (\<lambda>(k, cnt). cnt > VOLUME_THRESHOLD) items)"
  by (induction items fl rule: flag_volumes.induct) auto

lemma count_records_eq:
  "count_records rs (sc, dc, pf) =
     (count_keys (map (\<lambda>(ts, src, dst, port, proto). src) rs) sc,
      count_keys (map (\<lambda>(ts, src, dst, port, proto). (src, dst)) rs) dc,
      pf @ map (\<lambda>(ts, src, dst, port, proto). (ts, src, dst, port, proto, ''Unusual port''))
             (filter (\<lambda>(ts, src, dst, port, proto). port \<in> UNUSUAL_PORTS) rs))"
  by (induction rs "(sc, dc, pf)" arbitrary: sc dc pf rule: count_records.induct) auto

lemma counter_incr_keys: "map fst (counter_incr k c) = (if k \<in> fst ` set c then map fst c else map fst c @ [k])"
  by (induction c) (force+)

lemma counter_incr_dom: "fst ` set (counter_incr k c) = insert k (fst ` set c)"
  using arg_cong [OF counter_incr_keys [of k c], of set] by (auto split: if_splits)

lemma counter_incr_distinct: "distinct (map fst c) \<Longrightarrow> distinct (map fst (counter_incr k c))"
  by (simp add: counter_incr_keys)

lemma counter_incr_map_of:
  "map_of (counter_incr k c) k' =
     (if k' = k then Some ((case map_of c k of None \<Rightarrow> 0 | Some n \<Rightarrow> n) + 1) else map_of c k')"
  by (induction c) auto

lemma count_keys_distinct: "distinct (map fst c) \<Longrightarrow> distinct (map fst (count_keys ks c))"
  by (induction ks arbitrary: c) (auto simp: counter_incr_distinct)

lemma count_keys_map_of:
  "map_of (count_keys ks c) k =
     (if k \<in> set ks \<or> k \<in> fst ` set c
      then Some ((case map_of c k of None \<Rightarrow> 0 | Some n \<Rightarrow> n) + int (length (filter (\<lambda>x. x = k) ks)))
      else None)"
proof (induction ks arbitrary: c)
  case Nil
  then show ?case by (auto simp: map_of_eq_None_iff split: option.splits)
next
  case (Cons a ks)
  show ?case
    by (simp add: Cons counter_incr_map_of counter_incr_dom)
qed

lemma analyze_window_eq:
  "analyze_window fmt now rs =
     unusual_events fmt rs
     @ map (stamp fmt now) (zip [0 ..< length (conn_flags rs @ vol_flags rs)] (conn_flags rs @ vol_flags rs))"
  by (simp add: analyze_window_def count_records_eq flag_sources_eq flag_volumes_eq
      port_events_eq flagged_events_eq conn_flags_def vol_flags_def stamp_def unusual_events_def
      split_def comp_def)

lemma filter_key:
  "distinct (map fst xs) \<Longrightarrow>
     filter (\<lambda>p. fst p = k) xs = (case map_of xs k of None \<Rightarrow> [] | Some v \<Rightarrow> [(k, v)])"
proof (induction xs)
  case Nil
  then show ?case by simp
next
  case (Cons p xs)
  obtain k' v where p: "p = (k', v)" by (cases p)
  show ?case
  proof (cases "k' = k")
    case True
    with Cons.prems p have "k \<notin> fst ` set xs" by simp
    then have "filter (\<lambda>p. fst p = k) xs = []"
      by (force simp: filter_empty_conv)
    with True p show ?thesis by simp
  next
    case False
    with Cons p show ?thesis by simp
  qed
qed

lemma length_filter_map_key:
  "length (filter (\<lambda>x. x = k) (map f rs)) = length (filter (\<lambda>r. f r = k) rs)"
  by (induction rs) auto

lemma count_keys_filter:
  "filter (\<lambda>p. fst p = k) (count_keys ks []) =
     (if k \<in> set ks then [(k, int (length (filter (\<lambda>x. x = k) ks)))] else [])"
proof -
  have "distinct (map fst (count_keys ks ([] :: 'a counter)))"
    by (rule count_keys_distinct) simp
  then show ?thesis
    by (simp add: filter_key count_keys_map_of)
qed

lemma count_keys_filter_gt:
  "0 \<le> t \<Longrightarrow> filter (\<lambda>p. fst p = k \<and> snd p > t) (count_keys ks []) =
     (if int (length (filter (\<lambda>x. x = k) ks)) > t
      then [(k, int (length (filter (\<lambda>x. x = k) ks)))] else [])"
proof -
  assume t: "0 \<le> t"
  have "filter (\<lambda>p. fst p = k \<and> snd p > t) (count_keys ks []) =
        filter (\<lambda>p. snd p > t) (filter (\<lambda>p. fst p = k) (count_keys ks []))"
    by (simp add: split_def conj_commute)
  also have "\<dots> = (if int (length (filter (\<lambda>x. x = k) ks)) > t
      then [(k, int (length (filter (\<lambda>x. x = k) ks)))] else [])"
  proof (cases "k \<in> set ks")
    case True
    then show ?thesis by (simp add: count_keys_filter)
  next
    case False
    then have "filter (\<lambda>x. x = k) ks = []"
      by (auto simp: filter_empty_conv)
    with False t show ?thesis by (simp add: count_keys_filter)
  qed
  finally show ?thesis .
qed

lemma conn_flags_filter:
  "filter (\<lambda>(src, cnt, reason). src = s \<and> reason = ''High connection count'') (conn_flags rs) =
     (if int (length (filter (\<lambda>(ts, src, dst, port, proto). src = s) rs)) > 100
      then [(s, int (length (filter (\<lambda>(ts, src, dst, port, proto). src = s) rs)), ''High connection count'')]
      else [])"
proof -
  have "filter (\<lambda>(src, cnt, reason). src = s \<and> reason = ''High connection count'') (conn_flags rs) =
        map (\<lambda>(src, cnt). (src, cnt, ''High connection count''))
          (filter (\<lambda>p. fst p = s \<and> snd p > 100)
             (count_keys (map (\<lambda>(ts, src, dst, port, proto). src) rs) []))"
    by (simp add: conn_flags_def filter_map comp_def split_def CONNECTION_THRESHOLD_def conj_commute)
  then show ?thesis
    by (simp add: count_keys_filter_gt length_filter_map_key split_def comp_def)
qed

lemma vol_flags_filter:
  "filter (\<lambda>(src, cnt, reason). src = s \<and> reason = ''High volume to '' @ d) (vol_flags rs) =
     (if int (length (filter (\<lambda>(ts, src, dst, port, proto). src = s \<and> dst = d) rs)) > 100
      then [(s, int (length (filter (\<lambda>(ts, src, dst, port, proto). src = s \<and> dst = d) rs)), ''High volume to '' @ d)]
      else [])"
proof -
  have "filter (\<lambda>(src, cnt, reason). src = s \<and> reason = ''High volume to '' @ d) (vol_flags rs) =
        map (\<lambda>((src, dst), cnt). (src, cnt, ''High volume to '' @ dst))
          (filter (\<lambda>p. fst p = (s, d) \<and> snd p > 100)
             (count_keys (map (\<lambda>(ts, src, dst, port, proto). (src, dst)) rs) []))"
    by (simp add: vol_flags_def filter_map comp_def split_def VOLUME_THRESHOLD_def conj_commute prod_eq_iff)
  then show ?thesis
    by (simp add: count_keys_filter_gt length_filter_map_key split_def comp_def)
qed

lemma stamp_simps [simp]:
  "ev_src (stamp fmt now (j, f)) = fst f"
  "ev_reason (stamp fmt now (j, f)) = snd (snd f)"
  "ev_count (stamp fmt now (j, f)) = fst (snd f)"
  "ev_dst (stamp fmt now (j, f)) = []"
  "ev_ts (stamp fmt now (j, f)) = fmt (now j)"
  "snd (stamp fmt now (j, f)) = (fst f, [], PStr [], [], fst (snd f), snd (snd f))"
  by (cases f; simp add: stamp_def)+

lemma stamped_filter:
  "length idx = length fl \<Longrightarrow>
   map snd (filter (\<lambda>e. P (ev_src e) (ev_reason e)) (map (stamp fmt now) (zip idx fl))) =
   map (\<lambda>f. (fst f, [], PStr [], [], fst (snd f), snd (snd f)))
     (filter (\<lambda>f. P (fst f) (snd (snd f))) fl)"
  by (induction idx fl rule: list_induct2) auto

lemma unusual_filter_other:
  "\<forall>src. \<not> P src ''Unusual port'' \<Longrightarrow>
   filter (\<lambda>e. P (ev_src e) (ev_reason e)) (unusual_events fmt rs) = []"
  by (auto simp: unusual_events_def filter_empty_conv)

lemma conn_flags_reason: "f \<in> set (conn_flags rs) \<Longrightarrow> snd (snd f) = ''High connection count''"
  by (auto simp: conn_flags_def)

lemma vol_flags_reason: "f \<in> set (vol_flags rs) \<Longrightarrow> take 15 (snd (snd f)) = ''High volume to ''"
  by (auto simp: vol_flags_def)

lemma conn_events_of:
  "map snd (filter (\<lambda>e. ev_src e = s \<and> ev_reason e = ''High connection count'')
              (analyze_window fmt now rs)) =
     (if int (length (filter (\<lambda>(ts, src, dst, port, proto). src = s) rs)) > 100
      then [(s, [], PStr [], [],
             int (length (filter (\<lambda>(ts, src, dst, port, proto). src = s) rs)),
             ''High connection count'')]
      else [])"
proof -
  let ?P = "\<lambda>src reason. src = s \<and> reason = ''High connection count''"
  have u: "filter (\<lambda>e. ?P (ev_src e) (ev_reason e)) (unusual_events fmt rs) = []"
    by (rule unusual_filter_other) simp
  have v: "filter (\<lambda>f. ?P (fst f) (snd (snd f))) (vol_flags rs) = []"
    by (auto simp: filter_empty_conv dest: vol_flags_reason)
  have c: "filter (\<lambda>f. ?P (fst f) (snd (snd f))) (conn_flags rs) =
     (if int (length (filter (\<lambda>(ts, src, dst, port, proto). src = s) rs)) > 100
      then [(s, int (length (filter (\<lambda>(ts, src, dst, port, proto). src = s) rs)), ''High connection count'')]
      else [])"
    using conn_flags_filter [of s rs] by (simp add: split_def)
  show ?thesis
    by (simp add: analyze_window_eq u stamped_filter [where P = ?P] v c)
qed

lemma vol_events_of:
  "map snd (filter (\<lambda>e. ev_src e = s \<and> ev_reason e = ''High volume to '' @ d)
              (analyze_window fmt now rs)) =
     (if int (length (filter (\<lambda>(ts, src, dst, port, proto). src = s \<and> dst = d) rs)) > 100
      then [(s, [], PStr [], [],
             int (length (filter (\<lambda>(ts, src, dst, port, proto). src = s \<and> dst = d) rs)),
             ''High volume to '' @ d)]
      else [])"
proof -
  define r where "r = ''High volume to '' @ d"
  let ?P = "\<lambda>src reason. src = s \<and> reason = r"
  have u: "filter (\<lambda>e. ?P (ev_src e) (ev_reason e)) (unusual_events fmt rs) = []"
    by (rule unusual_filter_other) (simp add: r_def)
  have v: "filter (\<lambda>f. ?P (fst f) (snd (snd f))) (conn_flags rs) = []"
    by (auto simp: filter_empty_conv r_def dest: conn_flags_reason)
  have c: "filter (\<lambda>f. ?P (fst f) (snd (snd f))) (vol_flags rs) =
     (if int (length (filter (\<lambda>(ts, src, dst, port, proto). src = s \<and> dst = d) rs)) > 100
      then [(s, int (length (filter (\<lambda>(ts, src, dst, port, proto). src = s \<and> dst = d) rs)), r)]
      else [])"
    using vol_flags_filter [of s d rs] unfolding r_def by (simp only: split_def)
  have "map snd (filter (\<lambda>e. ev_src e = s \<and> ev_reason e = r) (analyze_window fmt now rs)) =
     (if int (length (filter (\<lambda>(ts, src, dst, port, proto). src = s \<and> dst = d) rs)) > 100
      then [(s, [], PStr [], [],
             int (length (filter (\<lambda>(ts, src, dst, port, proto). src = s \<and> dst = d) rs)), r)]
      else [])"
    by (simp add: analyze_window_eq u stamped_filter [where P = ?P] v c)
  then show ?thesis unfolding r_def .
qed

lemma length_filter_conj_le:
  "length (filter (\<lambda>x. P x \<and> Q x) xs) \<le> length (filter P xs)"
  by (induction xs) auto

lemma unusual_ports_iff:
  "port \<in> UNUSUAL_PORTS \<longleftrightarrow> 1 \<le> port \<and> port \<le> 1023 \<and> port \<noteq> 22 \<and> port \<noteq> 80 \<and> port \<noteq> 443"
  by (auto simp: UNUSUAL_PORTS_def)

lemma filter_all: "(\<And>x. x \<in> set xs \<Longrightarrow> P x) \<Longrightarrow> filter P xs = xs"
  by (induction xs) auto

lemma filter_none: "(\<And>x. x \<in> set xs \<Longrightarrow> \<not> P x) \<Longrightarrow> filter P xs = []"
  by (induction xs) auto

lemma unusual_events_reason: "e \<in> set (unusual_events fmt rs) \<Longrightarrow> ev_reason e = ''Unusual port''"
  by (auto simp: unusual_events_def)

lemma analyze_window_parts:
  "analyze_window fmt now rs = unusual_events fmt rs @ conn_events fmt now rs @ vol_events fmt now rs"
proof -
  let ?c = "conn_flags rs" and ?v = "vol_flags rs"
  have "zip [0 ..< length (?c @ ?v)] (?c @ ?v) =
        zip [0 ..< length ?c] ?c @ zip [length ?c ..< length ?c + length ?v] ?v"
    by (simp add: zip_append2 take_upt drop_upt)
  then show ?thesis
    by (simp add: analyze_window_eq conn_events_def vol_events_def)
qed

lemma conn_events_reason: "e \<in> set (conn_events fmt now rs) \<Longrightarrow> ev_reason e = ''High connection count''"
  by (auto simp: conn_events_def dest!: set_zip_rightD conn_flags_reason)

lemma vol_events_reason: "e \<in> set (vol_events fmt now rs) \<Longrightarrow> take 15 (ev_reason e) = ''High volume to ''"
  by (auto simp: vol_events_def dest!: set_zip_rightD vol_flags_reason)

lemma unusual_part:
  "filter (\<lambda>e. ev_reason e = ''Unusual port'') (analyze_window fmt now rs) = unusual_events fmt rs"
proof -
  have "filter (\<lambda>e. ev_reason e = ''Unusual port'') (unusual_events fmt rs) = unusual_events fmt rs"
    by (rule filter_all) (rule unusual_events_reason)
  moreover have "filter (\<lambda>e. ev_reason e = ''Unusual port'') (conn_events fmt now rs) = []"
    by (rule filter_none) (auto dest: conn_events_reason)
  moreover have "filter (\<lambda>e. ev_reason e = ''Unusual port'') (vol_events fmt now rs) = []"
    by (rule filter_none) (auto dest: vol_events_reason)
  ultimately show ?thesis
    by (simp add: analyze_window_parts)
qed

lemma conn_part:
  "filter (\<lambda>e. ev_reason e = ''High connection count'') (analyze_window fmt now rs) = conn_events fmt now rs"
proof -
  have "filter (\<lambda>e. ev_reason e = ''High connection count'') (unusual_events fmt rs) = []"
    by (rule filter_none) (auto dest: unusual_events_reason)
  moreover have "filter (\<lambda>e. ev_reason e = ''High connection count'') (conn_events fmt now rs) = conn_events fmt now rs"
    by (rule filter_all) (rule conn_events_reason)
  moreover have "filter (\<lambda>e. ev_reason e = ''High connection count'') (vol_events fmt now rs) = []"
    by (rule filter_none) (auto dest: vol_events_reason)
  ultimately show ?thesis
    by (simp add: analyze_window_parts)
qed

lemma vol_part:
  "filter (\<lambda>e. take 15 (ev_reason e) = ''High volume to '') (analyze_window fmt now rs) = vol_events fmt now rs"
proof -
  have "filter (\<lambda>e. take 15 (ev_reason e) = ''High volume to '') (unusual_events fmt rs) = []"
    by (rule filter_none) (auto dest: unusual_events_reason)
  moreover have "filter (\<lambda>e. take 15 (ev_reason e) = ''High volume to '') (conn_events fmt now rs) = []"
    by (rule filter_none) (auto dest: conn_events_reason)
  moreover have "filter (\<lambda>e. take 15 (ev_reason e) = ''High volume to '') (vol_events fmt now rs) = vol_events fmt now rs"
    by (rule filter_all) (rule vol_events_reason)
  ultimately show ?thesis
    by (simp add: analyze_window_parts)
qed

lemma threshold_part:
  "filter (\<lambda>e. ev_reason e \<noteq> ''Unusual port'') (analyze_window fmt now rs) =
     conn_events fmt now rs @ vol_events fmt now rs"
proof -
  have "filter (\<lambda>e. ev_reason e \<noteq> ''Unusual port'') (unusual_events fmt rs) = []"
    by (rule filter_none) (auto dest: unusual_events_reason)
  moreover have "filter (\<lambda>e. ev_reason e \<noteq> ''Unusual port'') (conn_events fmt now rs) = conn_events fmt now rs"
    by (rule filter_all) (auto dest: conn_events_reason)
  moreover have "filter (\<lambda>e. ev_reason e \<noteq> ''Unusual port'') (vol_events fmt now rs) = vol_events fmt now rs"
    by (rule filter_all) (auto dest: vol_events_reason)
  ultimately show ?thesis
    by (simp add: analyze_window_parts)
qed

lemma stamped_ts:
  "length idx = length fl \<Longrightarrow> map ev_ts (map (stamp fmt now) (zip idx fl)) = map (\<lambda>i. fmt (now i)) idx"
  by (induction idx fl rule: list_induct2) auto

lemma threshold_ts:
  "map ev_ts (conn_events fmt now rs @ vol_events fmt now rs) =
     map (\<lambda>i. fmt (now i)) [0 ..< length (conn_events fmt now rs @ vol_events fmt now rs)]"
proof -
  let ?c = "length (conn_flags rs)" and ?v = "length (vol_flags rs)"
  have "map ev_ts (conn_events fmt now rs @ vol_events fmt now rs) =
        map (\<lambda>i. fmt (now i)) [0 ..< ?c] @ map (\<lambda>i. fmt (now i)) [?c ..< ?c + ?v]"
    by (simp add: conn_events_def vol_events_def stamped_ts del: map_map)
  also have "\<dots> = map (\<lambda>i. fmt (now i)) ([0 ..< ?c] @ [?c ..< ?c + ?v])"
    by simp
  also have "[0 ..< ?c] @ [?c ..< ?c + ?v] = [0 ..< ?c + ?v]"
    by (simp add: upt_add_eq_append [symmetric])
  finally show ?thesis
    by (simp add: conn_events_def vol_events_def)
qed

lemma flags_timestamp_free:
  assumes "map snd rs = map snd rs'"
  shows "conn_flags rs = conn_flags rs'" and "vol_flags rs = vol_flags rs'"
proof -
  from assms have "map fst (map snd rs) = map fst (map snd rs')"
    by (rule arg_cong)
  then have "map (\<lambda>(ts, src, dst, port, proto). src) rs = map (\<lambda>(ts, src, dst, port, proto). src) rs'"
    by (simp add: split_def comp_def)
  then show "conn_flags rs = conn_flags rs'"
    by (simp only: conn_flags_def)
  from assms have "map (\<lambda>p. (fst p, fst (snd p))) (map snd rs) = map (\<lambda>p. (fst p, fst (snd p))) (map snd rs')"
    by (rule arg_cong)
  then have "map (\<lambda>(ts, src, dst, port, proto). (src, dst)) rs =
             map (\<lambda>(ts, src, dst, port, proto). (src, dst)) rs'"
    by (simp add: split_def comp_def)
  then show "vol_flags rs = vol_flags rs'"
    by (simp only: vol_flags_def)
qed

lemma port_flags_eq:
  "snd (snd (count_records rs ([], [], []))) =
     map (\<lambda>(ts, src, dst, port, proto). (ts, src, dst, port, proto, ''Unusual port''))
       (filter (\<lambda>(ts, src, dst, port, proto). port \<in> UNUSUAL_PORTS) rs)"
  by (simp add: count_records_eq)

lemma count_keys_dom: "fst ` set (count_keys ks c) = set ks \<union> fst ` set c"
  by (induction ks arbitrary: c) (auto simp: counter_incr_dom)

lemma analyze_window_sources:
  "e \<in> set (analyze_window fmt now rs) \<Longrightarrow> ev_src e \<in> (\<lambda>(ts, src, dst, port, proto). src) ` set rs"
proof -
  assume "e \<in> set (analyze_window fmt now rs)"
  then consider "e \<in> set (unusual_events fmt rs)"
    | j f where "e = stamp fmt now (j, f)" "f \<in> set (conn_flags rs)"
    | j f where "e = stamp fmt now (j, f)" "f \<in> set (vol_flags rs)"
    by (auto simp: analyze_window_eq dest!: set_zip_rightD)
  then show ?thesis
  proof cases
    case 1
    then show ?thesis by (force simp: unusual_events_def)
  next
    case 2
    from 2(2) have "fst f \<in> fst ` set (count_keys (map (\<lambda>(ts, src, dst, port, proto). src) rs) [])"
      by (force simp: conn_flags_def)
    with 2(1) show ?thesis by (simp add: count_keys_dom)
  next
    case 3
    from 3(2) have "fst f \<in> fst ` fst ` set (count_keys (map (\<lambda>(ts, src, dst, port, proto). (src, dst)) rs) [])"
      by (force simp: vol_flags_def)
    then have "fst f \<in> fst ` set (map (\<lambda>(ts, src, dst, port, proto). (src, dst)) rs)"
      by (simp only: count_keys_dom) simp
    then have "fst f \<in> (\<lambda>(ts, src, dst, port, proto). src) ` set rs"
      by (auto simp: image_iff split_def)
    with 3(1) show ?thesis by simp
  qed
qed

subsection \<open>Connection-count rule\<close>

text \<open>
  Claim C1. In a window in which exactly \<open>k\<close> records have the source \<open>s\<close>, the events
  of \<^verbatim>\<open>analyze_window\<close> with source \<open>s\<close> and reason \<^verbatim>\<open>High connection count\<close> are:
  exactly one, with empty destination, port and protocol columns and magnitude \<open>k\<close>,
  when \<open>k > 100\<close>; none when \<open>k \<le> 100\<close>. The comparison is strict, so 100 records give
  no event and 101 give one. (The timestamp column, dropped here by \<open>map snd\<close>, is the
  subject of claim C8.)
\<close>

theorem high_connection_count_iff_over_100:
  "map snd (filter (\<lambda>e. ev_src e = s \<and> ev_reason e = ''High connection count'')
              (analyze_window fmt now rs)) =
     (if int (length (filter (\<lambda>(ts, src, dst, port, proto). src = s) rs)) > 100
      then [(s, [], PStr [], [],
             int (length (filter (\<lambda>(ts, src, dst, port, proto). src = s) rs)),
             ''High connection count'')]
      else [])"
  by (rule conn_events_of)

subsection \<open>Unusual-port rule\<close>

text \<open>
  Claim C2, as amended. The unusual-port hits recorded by step 1 of \<^verbatim>\<open>analyze_window\<close>,
  and the events with reason \<^verbatim>\<open>Unusual port\<close> that it returns, correspond one to one and
  in order to the records whose port lies in 1..1023 and is none of 22, 80, 443; each
  event carries the fields of its record and magnitude 1. A record with any other port,
  among them 0 and the negative ports, gives no hit and no such event.
\<close>

theorem unusual_port_events_iff_in_1_1023:
  "snd (snd (count_records rs ([], [], []))) =
     map (\<lambda>(ts, src, dst, port, proto). (ts, src, dst, port, proto, ''Unusual port''))
       (filter (\<lambda>(ts, src, dst, port, proto).
                  1 \<le> port \<and> port \<le> 1023 \<and> port \<noteq> 22 \<and> port \<noteq> 80 \<and> port \<noteq> 443) rs)
   \<and> filter (\<lambda>e. ev_reason e = ''Unusual port'') (analyze_window fmt now rs) =
     map (\<lambda>(ts, src, dst, port, proto). (fmt ts, src, dst, PInt port, proto, 1, ''Unusual port''))
       (filter (\<lambda>(ts, src, dst, port, proto).
                  1 \<le> port \<and> port \<le> 1023 \<and> port \<noteq> 22 \<and> port \<noteq> 80 \<and> port \<noteq> 443) rs)"
  by (simp add: port_flags_eq unusual_part unusual_events_def unusual_ports_iff)

text \<open>
  The claim as stated lets the rule range over every port below 1024. The parser accepts
  the ports 0 and -1; a window of two such records records no hit and returns no event.
\<close>

theorem unusual_port_nonpositive_counterexample:
  "snd (parse_line fromisoformat_sec int_ascii ''2025-05-14T12:00:00,1.1.1.1,2.2.2.2,0,TCP'') =
     Some (''2025-05-14T12:00:00'', ''1.1.1.1'', ''2.2.2.2'', 0, ''TCP'')
   \<and> snd (parse_line fromisoformat_sec int_ascii ''2025-05-14T12:00:01,1.1.1.1,2.2.2.2,-1,TCP'') =
     Some (''2025-05-14T12:00:01'', ''1.1.1.1'', ''2.2.2.2'', - 1, ''TCP'')
   \<and> (0 :: int) < 1024 \<and> (- 1 :: int) < 1024
   \<and> snd (snd (count_records
        [(''2025-05-14T12:00:00'', ''1.1.1.1'', ''2.2.2.2'', 0, ''TCP''),
         (''2025-05-14T12:00:01'', ''1.1.1.1'', ''2.2.2.2'', - 1, ''TCP'')] ([], [], []))) = []
   \<and> analyze_window isoformat_sec clock_fixed
        [(''2025-05-14T12:00:00'', ''1.1.1.1'', ''2.2.2.2'', 0, ''TCP''),
         (''2025-05-14T12:00:01'', ''1.1.1.1'', ''2.2.2.2'', - 1, ''TCP'')] = []"
proof -
  have p0: "snd (parse_line fromisoformat_sec int_ascii ''2025-05-14T12:00:00,1.1.1.1,2.2.2.2,0,TCP'') =
     Some (''2025-05-14T12:00:00'', ''1.1.1.1'', ''2.2.2.2'', 0, ''TCP'')"
    by code_simp
  have p1: "snd (parse_line fromisoformat_sec int_ascii ''2025-05-14T12:00:01,1.1.1.1,2.2.2.2,-1,TCP'') =
     Some (''2025-05-14T12:00:01'', ''1.1.1.1'', ''2.2.2.2'', - 1, ''TCP'')"
    by code_simp
  have c: "snd (snd (count_records
        [(''2025-05-14T12:00:00'', ''1.1.1.1'', ''2.2.2.2'', 0, ''TCP''),
         (''2025-05-14T12:00:01'', ''1.1.1.1'', ''2.2.2.2'', - 1, ''TCP'')] ([], [], []))) = []"
    by (simp add: UNUSUAL_PORTS_def)
  have a: "analyze_window isoformat_sec clock_fixed
        [(''2025-05-14T12:00:00'', ''1.1.1.1'', ''2.2.2.2'', 0, ''TCP''),
         (''2025-05-14T12:00:01'', ''1.1.1.1'', ''2.2.2.2'', - 1, ''TCP'')] = []"
    by (simp add: analyze_window_def UNUSUAL_PORTS_def CONNECTION_THRESHOLD_def VOLUME_THRESHOLD_def)
  from p0 p1 c a show ?thesis by simp
qed

subsection \<open>Sources of events\<close>

text \<open>
  Claim C3, as amended. If the source field of every record of the window is non-empty,
  then the source of every event returned by \<^verbatim>\<open>analyze_window\<close> is non-empty.
  (\<^verbatim>\<open>parse_line\<close> itself does not reject an empty source field.)
\<close>

theorem event_sources_nonempty_for_nonempty_record_sources:
  assumes "\<forall>r \<in> set rs. (\<lambda>(ts, src, dst, port, proto). src \<noteq> []) r"
  shows "\<forall>e \<in> set (analyze_window fmt now rs). ev_src e \<noteq> []"
proof
  fix e assume "e \<in> set (analyze_window fmt now rs)"
  then have "ev_src e \<in> (\<lambda>(ts, src, dst, port, proto). src) ` set rs"
    by (rule analyze_window_sources)
  with assms show "ev_src e \<noteq> []" by force
qed

theorem event_sources_nonempty_witness:
  "''1.1.1.1'' \<noteq> []
   \<and> analyze_window isoformat_sec clock_fixed
          [(''2025-05-14T12:00:00'', ''1.1.1.1'', ''2.2.2.2'', 23, ''TCP'')] =
       [(''2025-05-14T12:00:00'', ''1.1.1.1'', ''2.2.2.2'', PInt 23, ''TCP'', 1, ''Unusual port'')]
   \<and> ev_src (hd (analyze_window isoformat_sec clock_fixed
          [(''2025-05-14T12:00:00'', ''1.1.1.1'', ''2.2.2.2'', 23, ''TCP'')])) \<noteq> []"
proof -
  have h: "\<forall>r \<in> set [(''2025-05-14T12:00:00'', ''1.1.1.1'', ''2.2.2.2'', 23 :: int, ''TCP'')].
      (\<lambda>(ts, src, dst, port, proto). src \<noteq> []) r"
    by simp
  have a: "analyze_window isoformat_sec clock_fixed
          [(''2025-05-14T12:00:00'', ''1.1.1.1'', ''2.2.2.2'', 23, ''TCP'')] =
       [(''2025-05-14T12:00:00'', ''1.1.1.1'', ''2.2.2.2'', PInt 23, ''TCP'', 1, ''Unusual port'')]"
    by (simp add: analyze_window_def UNUSUAL_PORTS_def CONNECTION_THRESHOLD_def VOLUME_THRESHOLD_def
        isoformat_sec_def)
  then have "hd (analyze_window isoformat_sec clock_fixed
          [(''2025-05-14T12:00:00'', ''1.1.1.1'', ''2.2.2.2'', 23, ''TCP'')])
       \<in> set (analyze_window isoformat_sec clock_fixed
          [(''2025-05-14T12:00:00'', ''1.1.1.1'', ''2.2.2.2'', 23, ''TCP'')])"
    by simp
  with event_sources_nonempty_for_nonempty_record_sources [OF h, of isoformat_sec clock_fixed]
  have "ev_src (hd (analyze_window isoformat_sec clock_fixed
          [(''2025-05-14T12:00:00'', ''1.1.1.1'', ''2.2.2.2'', 23, ''TCP'')])) \<noteq> []"
    by blast
  with a show ?thesis by simp
qed

text \<open>
  The claim as stated covers every record the parser accepts. A line with an empty
  second field is accepted, and the window of that record returns an event whose
  source is empty.
\<close>

theorem empty_source_event_counterexample:
  "snd (parse_line fromisoformat_sec int_ascii ''2025-05-14T12:00:00,,2.2.2.2,23,TCP'') =
     Some (''2025-05-14T12:00:00'', [], ''2.2.2.2'', 23, ''TCP'')
   \<and> analyze_window isoformat_sec clock_fixed [(''2025-05-14T12:00:00'', [], ''2.2.2.2'', 23, ''TCP'')] =
     [(''2025-05-14T12:00:00'', [], ''2.2.2.2'', PInt 23, ''TCP'', 1, ''Unusual port'')]
   \<and> ev_src (''2025-05-14T12:00:00'', [], ''2.2.2.2'', PInt 23, ''TCP'', 1, ''Unusual port'') = []"
proof -
  have p: "snd (parse_line fromisoformat_sec int_ascii ''2025-05-14T12:00:00,,2.2.2.2,23,TCP'') =
     Some (''2025-05-14T12:00:00'', [], ''2.2.2.2'', 23, ''TCP'')"
    by code_simp
  have a: "analyze_window isoformat_sec clock_fixed [(''2025-05-14T12:00:00'', [], ''2.2.2.2'', 23, ''TCP'')] =
     [(''2025-05-14T12:00:00'', [], ''2.2.2.2'', PInt 23, ''TCP'', 1, ''Unusual port'')]"
    by (simp add: analyze_window_def UNUSUAL_PORTS_def CONNECTION_THRESHOLD_def VOLUME_THRESHOLD_def
        isoformat_sec_def)
  from p a show ?thesis by simp
qed

subsection \<open>Volume rule\<close>

text \<open>
  Claim C4. If \<open>k > 100\<close> records of the window have source \<open>s\<close> and destination \<open>d\<close>,
  then the events with source \<open>s\<close> and reason \<^verbatim>\<open>High volume to \<close>\<open>d\<close> are exactly one,
  with magnitude \<open>k\<close> and empty destination, port and protocol columns (the destination
  is in the reason only); and the \<^verbatim>\<open>High connection count\<close> event for \<open>s\<close> is returned
  as well, with the count of all records from \<open>s\<close>.
\<close>

theorem high_volume_event_beside_connection_event:
  assumes "k = int (length (filter (\<lambda>(ts, src, dst, port, proto). src = s \<and> dst = d) rs))"
    and "k > 100"
  shows "map snd (filter (\<lambda>e. ev_src e = s \<and> ev_reason e = ''High volume to '' @ d)
                    (analyze_window fmt now rs)) =
           [(s, [], PStr [], [], k, ''High volume to '' @ d)]
       \<and> map snd (filter (\<lambda>e. ev_src e = s \<and> ev_reason e = ''High connection count'')
                    (analyze_window fmt now rs)) =
           [(s, [], PStr [], [],
             int (length (filter (\<lambda>(ts, src, dst, port, proto). src = s) rs)),
             ''High connection count'')]"
proof
  show "map snd (filter (\<lambda>e. ev_src e = s \<and> ev_reason e = ''High volume to '' @ d)
                    (analyze_window fmt now rs)) =
           [(s, [], PStr [], [], k, ''High volume to '' @ d)]"
    using assms by (simp only: vol_events_of if_True)
  have "length (filter (\<lambda>(ts, src, dst, port, proto). src = s \<and> dst = d) rs)
        \<le> length (filter (\<lambda>(ts, src, dst, port, proto). src = s) rs)"
    using length_filter_conj_le [of "\<lambda>(ts, src, dst, port, proto). src = s"
        "\<lambda>(ts, src, dst, port, proto). dst = d" rs]
    by (simp add: split_def)
  with assms have "int (length (filter (\<lambda>(ts, src, dst, port, proto). src = s) rs)) > 100"
    by linarith
  then show "map snd (filter (\<lambda>e. ev_src e = s \<and> ev_reason e = ''High connection count'')
                    (analyze_window fmt now rs)) =
           [(s, [], PStr [], [],
             int (length (filter (\<lambda>(ts, src, dst, port, proto). src = s) rs)),
             ''High connection count'')]"
    by (simp only: conn_events_of if_True)
qed

theorem high_volume_event_beside_connection_event_witness:
  "int (length (filter (\<lambda>(ts, src, dst, port, proto). src = ''1.1.1.1'' \<and> dst = ''2.2.2.2'')
          (replicate 101 (''2025-05-14T12:00:00'', ''1.1.1.1'', ''2.2.2.2'', 22, ''TCP'')))) > 100
   \<and> map snd (filter (\<lambda>e. ev_src e = ''1.1.1.1'' \<and> ev_reason e = ''High volume to '' @ ''2.2.2.2'')
        (analyze_window isoformat_sec clock_fixed
           (replicate 101 (''2025-05-14T12:00:00'', ''1.1.1.1'', ''2.2.2.2'', 22, ''TCP'')))) =
       [(''1.1.1.1'', [], PStr [], [], 101, ''High volume to '' @ ''2.2.2.2'')]"
proof -
  have k: "int (length (filter (\<lambda>(ts, src, dst, port, proto). src = ''1.1.1.1'' \<and> dst = ''2.2.2.2'')
          (replicate 101 (''2025-05-14T12:00:00'', ''1.1.1.1'', ''2.2.2.2'', 22 :: int, ''TCP'')))) = 101"
    by simp
  have gt: "(101 :: int) > 100" by simp
  from high_volume_event_beside_connection_event [OF k [symmetric] gt, of isoformat_sec clock_fixed] k show ?thesis
    by simp
qed

subsection \<open>Order of the events\<close>

text \<open>
  Claim C7. The list returned by \<^verbatim>\<open>analyze_window\<close> is its \<^verbatim>\<open>Unusual port\<close> events,
  followed by its \<^verbatim>\<open>High connection count\<close> events, followed by its events whose reason
  starts with \<^verbatim>\<open>High volume to \<close>; and the unusual-port events are those of the
  records with an unusual port, in the order of arrival of the records.
\<close>

theorem events_ordered_by_rule:
  "analyze_window fmt now rs =
     filter (\<lambda>e. ev_reason e = ''Unusual port'') (analyze_window fmt now rs)
     @ filter (\<lambda>e. ev_reason e = ''High connection count'') (analyze_window fmt now rs)
     @ filter (\<lambda>e. take 15 (ev_reason e) = ''High volume to '') (analyze_window fmt now rs)
   \<and> filter (\<lambda>e. ev_reason e = ''Unusual port'') (analyze_window fmt now rs) =
       map (\<lambda>(ts, src, dst, port, proto). (fmt ts, src, dst, PInt port, proto, 1, ''Unusual port''))
         (filter (\<lambda>(ts, src, dst, port, proto). port \<in> UNUSUAL_PORTS) rs)"
proof
  show "analyze_window fmt now rs =
     filter (\<lambda>e. ev_reason e = ''Unusual port'') (analyze_window fmt now rs)
     @ filter (\<lambda>e. ev_reason e = ''High connection count'') (analyze_window fmt now rs)
     @ filter (\<lambda>e. take 15 (ev_reason e) = ''High volume to '') (analyze_window fmt now rs)"
    unfolding unusual_part conn_part vol_part by (rule analyze_window_parts)
  show "filter (\<lambda>e. ev_reason e = ''Unusual port'') (analyze_window fmt now rs) =
       map (\<lambda>(ts, src, dst, port, proto). (fmt ts, src, dst, PInt port, proto, 1, ''Unusual port''))
         (filter (\<lambda>(ts, src, dst, port, proto). port \<in> UNUSUAL_PORTS) rs)"
    unfolding unusual_part by (simp add: unusual_events_def)
qed

subsection \<open>Timestamps of the events\<close>

text \<open>
  Claim C8. The timestamps of the \<^verbatim>\<open>Unusual port\<close> events are the formatted timestamps
  of the records that triggered them. The timestamps of the other (threshold) events are
  the formatted readings of the clock taken during the analysis, one reading per event
  in order; and the threshold events do not depend on the timestamps of the records:
  two windows that differ only in the timestamps give the same threshold events.
\<close>

theorem event_timestamps_by_rule:
  "map ev_ts (filter (\<lambda>e. ev_reason e = ''Unusual port'') (analyze_window fmt now rs)) =
     map (\<lambda>(ts, src, dst, port, proto). fmt ts)
       (filter (\<lambda>(ts, src, dst, port, proto). port \<in> UNUSUAL_PORTS) rs)
   \<and> map ev_ts (filter (\<lambda>e. ev_reason e \<noteq> ''Unusual port'') (analyze_window fmt now rs)) =
     map (\<lambda>i. fmt (now i))
       [0 ..< length (filter (\<lambda>e. ev_reason e \<noteq> ''Unusual port'') (analyze_window fmt now rs))]
   \<and> (map snd rs = map snd rs' \<longrightarrow>
        filter (\<lambda>e. ev_reason e \<noteq> ''Unusual port'') (analyze_window fmt now rs) =
        filter (\<lambda>e. ev_reason e \<noteq> ''Unusual port'') (analyze_window fmt now rs'))"
proof (intro conjI impI)
  show "map ev_ts (filter (\<lambda>e. ev_reason e = ''Unusual port'') (analyze_window fmt now rs)) =
     map (\<lambda>(ts, src, dst, port, proto). fmt ts)
       (filter (\<lambda>(ts, src, dst, port, proto). port \<in> UNUSUAL_PORTS) rs)"
    unfolding unusual_part by (simp add: unusual_events_def split_def comp_def)
  show "map ev_ts (filter (\<lambda>e. ev_reason e \<noteq> ''Unusual port'') (analyze_window fmt now rs)) =
     map (\<lambda>i. fmt (now i))
       [0 ..< length (filter (\<lambda>e. ev_reason e \<noteq> ''Unusual port'') (analyze_window fmt now rs))]"
    unfolding threshold_part by (rule threshold_ts)
  assume "map snd rs = map snd rs'"
  then have "conn_flags rs = conn_flags rs'" "vol_flags rs = vol_flags rs'"
    by (rule flags_timestamp_free)+
  then show "filter (\<lambda>e. ev_reason e \<noteq> ''Unusual port'') (analyze_window fmt now rs) =
        filter (\<lambda>e. ev_reason e \<noteq> ''Unusual port'') (analyze_window fmt now rs')"
    unfolding threshold_part by (simp add: conn_events_def vol_events_def)
qed

theorem event_timestamps_by_rule_witness:
  "map snd (replicate 101 (''2025-05-14T12:00:00'', ''1.1.1.1'', ''2.2.2.2'', 22 :: int, ''TCP'')) =
   map snd (replicate 101 (''2025-05-14T12:04:59'', ''1.1.1.1'', ''2.2.2.2'', 22 :: int, ''TCP''))
   \<and> filter (\<lambda>e. ev_reason e \<noteq> ''Unusual port'')
        (analyze_window isoformat_sec clock_fixed
           (replicate 101 (''2025-05-14T12:00:00'', ''1.1.1.1'', ''2.2.2.2'', 22, ''TCP''))) =
      filter (\<lambda>e. ev_reason e \<noteq> ''Unusual port'')
        (analyze_window isoformat_sec clock_fixed
           (replicate 101 (''2025-05-14T12:04:59'', ''1.1.1.1'', ''2.2.2.2'', 22, ''TCP'')))"
proof -
  have h: "map snd (replicate 101 (''2025-05-14T12:00:00'', ''1.1.1.1'', ''2.2.2.2'', 22 :: int, ''TCP'')) =
   map snd (replicate 101 (''2025-05-14T12:04:59'', ''1.1.1.1'', ''2.2.2.2'', 22 :: int, ''TCP''))"
    by simp
  from event_timestamps_by_rule [of isoformat_sec clock_fixed
      "replicate 101 (''2025-05-14T12:00:00'', ''1.1.1.1'', ''2.2.2.2'', 22, ''TCP'')"
      "replicate 101 (''2025-05-14T12:04:59'', ''1.1.1.1'', ''2.2.2.2'', 22, ''TCP'')"] h
  show ?thesis by blast
qed

section \<open>Properties of the parser\<close>

lemma str_split_ne: "str_split sep s \<noteq> []"
  by (induction s) (auto split: list.splits)

lemma str_split_last_field: "sep \<notin> set f \<Longrightarrow> str_split sep f = [f]"
  by (induction f) auto

lemma str_split_field: "sep \<notin> set f \<Longrightarrow> str_split sep (f @ sep # rest) = f # str_split sep rest"
  by (induction f) (auto simp: str_split_ne split: list.splits)

lemma str_split_length: "length (str_split sep s) = Suc (length (filter (\<lambda>c. c = sep) s))"
  by (induction s) (auto simp: str_split_ne split: list.splits)

lemma str_split_five:
  assumes "sep \<notin> set f0 \<union> set f1 \<union> set f2 \<union> set f3 \<union> set f4"
  shows "str_split sep (f0 @ [sep] @ f1 @ [sep] @ f2 @ [sep] @ f3 @ [sep] @ f4) = [f0, f1, f2, f3, f4]"
  using assms by (simp add: str_split_field str_split_last_field)

text \<open>
  Claim C5. A line made of five comma-free fields separated by commas, whose trimmed
  first field is accepted by \<^verbatim>\<open>fromisoformat\<close> and whose trimmed fourth field is accepted
  by \<^verbatim>\<open>int\<close>, is parsed without a warning into the record of the parsed timestamp, the
  trimmed second and third fields, the integer port and the trimmed fifth field.
\<close>

theorem parse_line_valid_fields:
  assumes "raw = f0 @ '','' @ f1 @ '','' @ f2 @ '','' @ f3 @ '','' @ f4"
    and "CHR '','' \<notin> set f0 \<union> set f1 \<union> set f2 \<union> set f3 \<union> set f4"
    and "fromisoformat (strip f0) = Inr ts"
    and "int_of_str (strip f3) = Inr port"
  shows "parse_line fromisoformat int_of_str raw = ([], Some (ts, strip f1, strip f2, port, strip f4))"
proof -
  have "str_split CHR '','' raw = [f0, f1, f2, f3, f4]"
    using str_split_five [OF assms(2)] assms(1) by simp
  then show ?thesis
    using assms(3,4) by (simp add: parse_line_def parse_fields_def)
qed

text \<open>
  The line of the witness has a no-break space (U+00A0) after the timestamp and before
  the source, and ASCII spaces elsewhere.
\<close>

theorem parse_line_valid_fields_witness:
  "CHR '','' \<notin> set ('' 2025-05-14T12:00:00'' @ [CHR 0xC2, CHR 0xA0])
         \<union> set ([CHR 0xC2, CHR 0xA0] @ ''192.168.0.1 '') \<union> set ''10.0.0.1''
         \<union> set '' 80 '' \<union> set ''TCP''
   \<and> fromisoformat_sec (strip ('' 2025-05-14T12:00:00'' @ [CHR 0xC2, CHR 0xA0])) =
       Inr ''2025-05-14T12:00:00''
   \<and> int_ascii (strip '' 80 '') = Inr 80
   \<and> parse_line fromisoformat_sec int_ascii
         (('' 2025-05-14T12:00:00'' @ [CHR 0xC2, CHR 0xA0]) @ '','' @
          ([CHR 0xC2, CHR 0xA0] @ ''192.168.0.1 '') @ '','' @ ''10.0.0.1'' @ '','' @ '' 80 '' @ '','' @ ''TCP'')
       = ([], Some (''2025-05-14T12:00:00'', ''192.168.0.1'', ''10.0.0.1'', 80, ''TCP''))"
proof -
  let ?f0 = "'' 2025-05-14T12:00:00'' @ [CHR 0xC2, CHR 0xA0]"
  let ?f1 = "[CHR 0xC2, CHR 0xA0] @ ''192.168.0.1 ''"
  have b: "CHR '','' \<notin> set ?f0 \<union> set ?f1 \<union> set ''10.0.0.1'' \<union> set '' 80 '' \<union> set ''TCP''"
    by simp
  have c: "fromisoformat_sec (strip ?f0) = Inr ''2025-05-14T12:00:00''"
    by code_simp
  have d: "int_ascii (strip '' 80 '') = Inr 80"
    by code_simp
  have s1: "strip ?f1 = ''192.168.0.1''" by code_simp
  have s2: "strip ''10.0.0.1'' = ''10.0.0.1''" by code_simp
  have s3: "strip ''TCP'' = ''TCP''" by code_simp
  from parse_line_valid_fields [where ?f0.0 = ?f0 and ?f1.0 = ?f1
        and ?f2.0 = "''10.0.0.1''" and ?f3.0 = "'' 80 ''" and ?f4.0 = "''TCP''"
        and fromisoformat = fromisoformat_sec and int_of_str = int_ascii, OF refl b c d]
  have "parse_line fromisoformat_sec int_ascii
         (?f0 @ '','' @ ?f1 @ '','' @ ''10.0.0.1'' @ '','' @ '' 80 '' @ '','' @ ''TCP'')
       = ([], Some (''2025-05-14T12:00:00'', ''192.168.0.1'', ''10.0.0.1'', 80, ''TCP''))"
    by (simp only: s1 s2 s3)
  with b c d show ?thesis by (intro conjI)
qed

text \<open>
  Claim C6. If the number of comma-separated fields of a line is not 5, or
  \<^verbatim>\<open>fromisoformat\<close> raises on the trimmed first field, or \<^verbatim>\<open>int\<close> raises on the trimmed
  fourth field, then \<^verbatim>\<open>parse_line\<close> returns \<^verbatim>\<open>None\<close> and logs one warning: the exception
  does not reach the caller.
\<close>

theorem parse_line_invalid_is_None:
  assumes "length (str_split CHR '','' raw) \<noteq> 5
      \<or> (\<exists>e. fromisoformat (strip (str_split CHR '','' raw ! 0)) = Inl e)
      \<or> (\<exists>e. int_of_str (strip (str_split CHR '','' raw ! 3)) = Inl e)"
  shows "snd (parse_line fromisoformat int_of_str raw) = None
       \<and> (\<exists>m. fst (parse_line fromisoformat int_of_str raw) = [LogWarning m])"
proof (cases "length (str_split CHR '','' raw) = 5")
  case False
  then show ?thesis by (simp add: parse_line_def)
next
  case True
  with assms have "(\<exists>e. fromisoformat (map strip (str_split CHR '','' raw) ! 0) = Inl e)
      \<or> (\<exists>e. int_of_str (map strip (str_split CHR '','' raw) ! 3) = Inl e)"
    by simp
  then have "\<exists>e. parse_fields fromisoformat int_of_str (map strip (str_split CHR '','' raw)) = Inl e"
    by (auto simp: parse_fields_def Let_def split: sum.splits)
  with True show ?thesis
    by (auto simp: parse_line_def)
qed

theorem parse_line_invalid_is_None_witness:
  "length (str_split CHR '','' ''foo,bar'') \<noteq> 5
   \<and> snd (parse_line fromisoformat_sec int_ascii ''foo,bar'') = None
   \<and> (\<exists>e. fromisoformat_sec (strip (str_split CHR '','' ''yesterday,1.1.1.1,2.2.2.2,80,TCP'' ! 0)) = Inl e)
   \<and> snd (parse_line fromisoformat_sec int_ascii ''yesterday,1.1.1.1,2.2.2.2,80,TCP'') = None
   \<and> (\<exists>e. int_ascii (strip (str_split CHR '','' ''2025-05-14T12:00:00,1.1.1.1,2.2.2.2,http,TCP'' ! 3)) = Inl e)
   \<and> snd (parse_line fromisoformat_sec int_ascii ''2025-05-14T12:00:00,1.1.1.1,2.2.2.2,http,TCP'') = None"
proof -
  have a: "length (str_split CHR '','' ''foo,bar'') \<noteq> 5"
    by code_simp
  have b: "fromisoformat_sec (strip (str_split CHR '','' ''yesterday,1.1.1.1,2.2.2.2,80,TCP'' ! 0))
             = Inl (ValueError ''Invalid isoformat string: yesterday'')"
    by code_simp
  have c: "int_ascii (strip (str_split CHR '','' ''2025-05-14T12:00:00,1.1.1.1,2.2.2.2,http,TCP'' ! 3))
             = Inl (ValueError ''invalid literal for int() with base 10: http'')"
    by code_simp
  from a have a': "snd (parse_line fromisoformat_sec int_ascii ''foo,bar'') = None"
    using parse_line_invalid_is_None [of "''foo,bar''" fromisoformat_sec int_ascii] by blast
  from b have b': "snd (parse_line fromisoformat_sec int_ascii ''yesterday,1.1.1.1,2.2.2.2,80,TCP'') = None"
    using parse_line_invalid_is_None [of "''yesterday,1.1.1.1,2.2.2.2,80,TCP''" fromisoformat_sec int_ascii] by blast
  from c have c': "snd (parse_line fromisoformat_sec int_ascii ''2025-05-14T12:00:00,1.1.1.1,2.2.2.2,http,TCP'') = None"
    using parse_line_invalid_is_None [of "''2025-05-14T12:00:00,1.1.1.1,2.2.2.2,http,TCP''" fromisoformat_sec int_ascii] by blast
  from a a' b b' c c' show ?thesis by blast
qed

section \<open>Properties of the tail source\<close>

lemma drop_leading_decompose:
  "\<exists>wl. set wl \<subseteq> set ws \<and> s = concat wl @ drop_leading ws s"
proof (induction ws s rule: drop_leading.induct)
  case (1 ws s)
  show ?case
  proof (cases "find (\<lambda>w. w \<noteq> [] \<and> prefix w s) ws")
    case None
    then have "drop_leading ws s = s" by (simp add: drop_leading.simps)
    then have "set [] \<subseteq> set ws \<and> s = concat [] @ drop_leading ws s" by simp
    then show ?thesis by blast
  next
    case (Some w)
    then have w: "w \<in> set ws" "prefix w s"
      by (auto simp: find_Some_iff)
    from Some have eq: "drop_leading ws s = drop_leading ws (drop (length w) s)"
      by (simp add: drop_leading.simps)
    from 1 [OF Some] obtain wl where wl: "set wl \<subseteq> set ws"
      "drop (length w) s = concat wl @ drop_leading ws (drop (length w) s)"
      by blast
    from w(2) have "s = w @ drop (length w) s"
      by (auto simp: prefix_def)
    with wl(2) eq have "s = concat (w # wl) @ drop_leading ws s"
      by simp
    moreover from w(1) wl(1) have "set (w # wl) \<subseteq> set ws" by simp
    ultimately show ?thesis by blast
  qed
qed

lemma drop_leading_done:
  "w \<in> set ws \<Longrightarrow> w \<noteq> [] \<Longrightarrow> \<not> prefix w (drop_leading ws s)"
proof (induction ws s rule: drop_leading.induct)
  case (1 ws s)
  show ?case
  proof (cases "find (\<lambda>w. w \<noteq> [] \<and> prefix w s) ws")
    case None
    then have "drop_leading ws s = s" by (simp add: drop_leading.simps)
    moreover from None 1(2,3) have "\<not> prefix w s"
      by (auto simp: find_None_iff)
    ultimately show ?thesis by simp
  next
    case (Some v)
    then have "drop_leading ws s = drop_leading ws (drop (length v) s)"
      by (simp add: drop_leading.simps)
    with 1(1) [OF Some 1(2,3)] show ?thesis by simp
  qed
qed

lemma whitespace_nonempty: "w \<in> set WHITESPACE \<Longrightarrow> w \<noteq> []"
  by (auto simp: WHITESPACE_def)

lemma strip_decompose:
  "\<exists>wl wr. set wl \<subseteq> set WHITESPACE \<and> set wr \<subseteq> set WHITESPACE
      \<and> s = concat wl @ strip s @ concat wr"
proof -
  let ?a = "drop_leading WHITESPACE s"
  let ?b = "drop_leading (map rev WHITESPACE) (rev ?a)"
  obtain wl where wl: "set wl \<subseteq> set WHITESPACE" "s = concat wl @ ?a"
    using drop_leading_decompose by blast
  obtain vs where vs: "set vs \<subseteq> set (map rev WHITESPACE)" "rev ?a = concat vs @ ?b"
    using drop_leading_decompose by blast
  from vs(2) have "rev (rev ?a) = rev (concat vs @ ?b)" by (rule arg_cong)
  then have a: "?a = strip s @ concat (map rev (rev vs))"
    by (simp add: strip_def rev_concat)
  from vs(1) have "set (map rev (rev vs)) \<subseteq> set WHITESPACE"
    by auto
  with wl a show ?thesis by metis
qed

lemma strip_ends:
  assumes "w \<in> set WHITESPACE"
  shows "\<not> prefix w (strip s)" and "\<not> suffix w (strip s)"
proof -
  let ?a = "drop_leading WHITESPACE s"
  let ?b = "drop_leading (map rev WHITESPACE) (rev ?a)"
  from assms have ne: "w \<noteq> []" by (rule whitespace_nonempty)
  from assms ne have "\<not> prefix (rev w) ?b"
    by (intro drop_leading_done) auto
  then show "\<not> suffix w (strip s)"
    by (simp add: strip_def suffix_to_prefix)
  obtain vs where "rev ?a = concat vs @ ?b"
    using drop_leading_decompose by blast
  then have "rev (rev ?a) = rev (concat vs @ ?b)" by (rule arg_cong)
  then have a: "?a = strip s @ rev (concat vs)"
    by (simp add: strip_def)
  from assms ne have "\<not> prefix w ?a" by (rule drop_leading_done)
  with a show "\<not> prefix w (strip s)"
    by (metis prefix_prefix)
qed

lemma tail_log_reads:
  "fst (tail_log (map Inr lines @ rest)) =
     map strip (filter (\<lambda>l. l \<noteq> []) lines) @ fst (tail_log rest)"
  by (induction lines) (auto simp: split_def)

text \<open>
  Claim C9, as amended. For every non-empty text read before a read fails (or before the
  reads at hand end), \<^verbatim>\<open>tail_log\<close> yields, in order, that text with its leading and its
  trailing whitespace removed, where whitespace is every character of \<^verbatim>\<open>str.strip()\<close>
  (the line terminator and the Unicode spaces among them); a failed read ends the yields.
  What is yielded is the line between a run of whitespace characters before it and one
  after it, and it neither starts nor ends with a whitespace character.
\<close>

theorem tail_log_yields_stripped_lines:
  "fst (tail_log (map Inr lines @ rest)) =
     map strip (filter (\<lambda>l. l \<noteq> []) lines) @ fst (tail_log rest)
   \<and> fst (tail_log (map Inr lines @ Inl e # rest)) = map strip (filter (\<lambda>l. l \<noteq> []) lines)
   \<and> (\<exists>wl wr. set wl \<subseteq> set WHITESPACE \<and> set wr \<subseteq> set WHITESPACE
         \<and> l = concat wl @ strip l @ concat wr)
   \<and> (\<forall>w \<in> set WHITESPACE. \<not> prefix w (strip l) \<and> \<not> suffix w (strip l))"
proof (intro conjI ballI)
  show "fst (tail_log (map Inr lines @ rest)) =
     map strip (filter (\<lambda>l. l \<noteq> []) lines) @ fst (tail_log rest)"
    by (rule tail_log_reads)
  show "fst (tail_log (map Inr lines @ Inl e # rest)) = map strip (filter (\<lambda>l. l \<noteq> []) lines)"
    by (simp add: tail_log_reads)
  show "\<exists>wl wr. set wl \<subseteq> set WHITESPACE \<and> set wr \<subseteq> set WHITESPACE
         \<and> l = concat wl @ strip l @ concat wr"
    by (rule strip_decompose)
  fix w assume "w \<in> set WHITESPACE"
  then show "\<not> prefix w (strip l)" and "\<not> suffix w (strip l)"
    by (rule strip_ends)+
qed

theorem tail_log_yields_stripped_lines_witness:
  "[CHR 0xC2, CHR 0xA0] \<in> set WHITESPACE
   \<and> [CHR 0x0A] \<in> set WHITESPACE
   \<and> fst (tail_log
        [Inr ([CHR 0xC2, CHR 0xA0] @ ''  GET /x  '' @ [CHR 0x0A]), Inr [],
         Inr (''b'' @ [CHR 0xE2, CHR 0x80, CHR 0x89, CHR 0x0D, CHR 0x0A]),
         Inl (OSError ''read failed''), Inr (''c'' @ [CHR 0x0A])]) = [''GET /x'', ''b'']
   \<and> \<not> prefix [CHR 0xC2, CHR 0xA0] (strip ([CHR 0xC2, CHR 0xA0] @ ''  GET /x  '' @ [CHR 0x0A]))
   \<and> \<not> suffix [CHR 0x0A] (strip ([CHR 0xC2, CHR 0xA0] @ ''  GET /x  '' @ [CHR 0x0A]))"
proof -
  let ?l0 = "[CHR 0xC2, CHR 0xA0] @ ''  GET /x  '' @ [CHR 0x0A]"
  let ?l1 = "''b'' @ [CHR 0xE2, CHR 0x80, CHR 0x89, CHR 0x0D, CHR 0x0A]"
  have w0: "[CHR 0xC2, CHR 0xA0] \<in> set WHITESPACE" and w1: "[CHR 0x0A] \<in> set WHITESPACE"
    by (simp_all add: WHITESPACE_def)
  have s0: "strip ?l0 = ''GET /x''" by code_simp
  have s1: "strip ?l1 = ''b''" by code_simp
  note inst = tail_log_yields_stripped_lines
    [of "[?l0, [], ?l1]" "[Inl (OSError ''read failed''), Inr (''c'' @ [CHR 0x0A])]" _ ?l0]
  from inst have "fst (tail_log (map Inr [?l0, [], ?l1]
        @ [Inl (OSError ''read failed''), Inr (''c'' @ [CHR 0x0A])])) =
      map strip (filter (\<lambda>l. l \<noteq> []) [?l0, [], ?l1])
        @ fst (tail_log [Inl (OSError ''read failed''), Inr (''c'' @ [CHR 0x0A])])"
    by (rule conjunct1)
  then have run: "fst (tail_log [Inr ?l0, Inr [], Inr ?l1,
        Inl (OSError ''read failed''), Inr (''c'' @ [CHR 0x0A])]) = [''GET /x'', ''b'']"
    using s0 s1 by simp
  from inst w0 have p: "\<not> prefix [CHR 0xC2, CHR 0xA0] (strip ?l0)" by blast
  from inst w1 have q: "\<not> suffix [CHR 0x0A] (strip ?l0)" by blast
  from w0 w1 run p q show ?thesis by (intro conjI)
qed

text \<open>
  The claim as stated keeps leading whitespace and strips only the line terminator. The
  line \<^verbatim>\<open>"  GET /x  \n"\<close> is yielded as \<^verbatim>\<open>"GET /x"\<close>.
\<close>

theorem tail_log_strips_leading_whitespace_counterexample:
  "fst (tail_log [Inr (''  GET /x  '' @ [CHR 0x0A])]) = [''GET /x'']
   \<and> ''GET /x'' \<noteq> ''  GET /x  ''"
  by code_simp

section \<open>Properties of the scheduler loop\<close>

lemma main_loop_snoc:
  "main_loop env fromisoformat int_of_str fmt t0 (arrivals @ [a]) =
     main_step env fromisoformat int_of_str fmt
       (main_loop env fromisoformat int_of_str fmt t0 arrivals) a"
  by (simp add: main_loop_def)

lemma main_step_flush:
  assumes "clock_check a - start st \<ge> ANALYSIS_INTERVAL"
  shows "buffer (main_step env fromisoformat int_of_str fmt st a) = []"
    and "start (main_step env fromisoformat int_of_str fmt st a) = clock_reset a"
  using assms by (auto simp: main_step_def Let_def split: prod.splits)

lemma main_step_flush_logged:
  assumes "clock_check a - start st \<ge> ANALYSIS_INTERVAL"
    and "snd (snd (window_actions env fmt (utcnow a)
            (case snd (parse_line fromisoformat int_of_str (line a)) of
               Some r \<Rightarrow> buffer st @ [r] | None \<Rightarrow> buffer st))) = Inl e"
  shows "\<exists>pre. logged (main_step env fromisoformat int_of_str fmt st a) =
           logged st @ pre @ [LogError (''Fel i analys/respons: '' @ exn_str e)]"
  using assms by (auto simp: main_step_def Let_def split: prod.splits)

lemma main_step_accumulate:
  assumes "\<not> clock_check a - start st \<ge> ANALYSIS_INTERVAL"
  shows "buffer (main_step env fromisoformat int_of_str fmt st a) =
           (case snd (parse_line fromisoformat int_of_str (line a)) of
              Some r \<Rightarrow> buffer st @ [r] | None \<Rightarrow> buffer st)"
    and "start (main_step env fromisoformat int_of_str fmt st a) = start st"
  using assms by (auto simp: main_step_def Let_def split: prod.splits)

text \<open>
  Claim C10. In an iteration of the loop of \<^verbatim>\<open>main\<close> in which the window has elapsed,
  whatever the collaborators do: the buffer is empty and the window restarts at the new
  clock reading afterwards; if the analysis-and-response block raised \<open>e\<close>, the last line
  logged is the error \<^verbatim>\<open>Fel i analys/respons: \<close>\<open>e\<close>; and the next iteration
  accumulates into the fresh window: it holds exactly the record of the next line, if
  that line parses.
\<close>

theorem flush_resets_window_despite_failure:
  assumes "clock_check a - start st \<ge> ANALYSIS_INTERVAL"
  shows "let st' = main_step env fromisoformat int_of_str fmt st a in
         buffer st' = []
       \<and> start st' = clock_reset a
       \<and> (\<forall>e. snd (snd (window_actions env fmt (utcnow a)
                (case snd (parse_line fromisoformat int_of_str (line a)) of
                   Some r \<Rightarrow> buffer st @ [r] | None \<Rightarrow> buffer st))) = Inl e \<longrightarrow>
              (\<exists>pre. logged st' =
                 logged st @ pre @ [LogError (''Fel i analys/respons: '' @ exn_str e)]))
       \<and> (\<forall>b. \<not> clock_check b - start st' \<ge> ANALYSIS_INTERVAL \<longrightarrow>
              buffer (main_step env fromisoformat int_of_str fmt st' b) =
                (case snd (parse_line fromisoformat int_of_str (line b)) of
                   Some r \<Rightarrow> [r] | None \<Rightarrow> []))"
proof -
  define st' where "st' = main_step env fromisoformat int_of_str fmt st a"
  have 1: "buffer st' = []"
    unfolding st'_def using assms by (rule main_step_flush(1))
  have 2: "start st' = clock_reset a"
    unfolding st'_def using assms by (rule main_step_flush(2))
  have 3: "\<forall>e. snd (snd (window_actions env fmt (utcnow a)
            (case snd (parse_line fromisoformat int_of_str (line a)) of
               Some r \<Rightarrow> buffer st @ [r] | None \<Rightarrow> buffer st))) = Inl e \<longrightarrow>
          (\<exists>pre. logged st' = logged st @ pre @ [LogError (''Fel i analys/respons: '' @ exn_str e)])"
    unfolding st'_def using assms main_step_flush_logged by blast
  have 4: "\<forall>b. \<not> clock_check b - start st' \<ge> ANALYSIS_INTERVAL \<longrightarrow>
          buffer (main_step env fromisoformat int_of_str fmt st' b) =
            (case snd (parse_line fromisoformat int_of_str (line b)) of
               Some r \<Rightarrow> [r] | None \<Rightarrow> [])"
    using 1 by (auto simp: main_step_accumulate(1) split: option.splits)
  from 1 2 3 4 show ?thesis
    unfolding st'_def Let_def by blast
qed

theorem flush_resets_window_despite_failure_witness:
  "clock_check \<lparr>line = ''2025-05-14T12:04:59,1.1.1.1,2.2.2.2,23,TCP'', clock_check = 300,
                clock_reset = 301, utcnow = clock_fixed\<rparr>
     - start (\<lparr>buffer = [], start = 0, logged = [], calls = []\<rparr> :: string sched) \<ge> ANALYSIS_INTERVAL
   \<and> snd (snd (window_actions failing_report isoformat_sec clock_fixed
          [(''2025-05-14T12:04:59'', ''1.1.1.1'', ''2.2.2.2'', 23, ''TCP'')])) = Inl (OSError ''disk full'')
   \<and> buffer (main_step failing_report fromisoformat_sec int_ascii isoformat_sec
        \<lparr>buffer = [], start = 0, logged = [], calls = []\<rparr>
        \<lparr>line = ''2025-05-14T12:04:59,1.1.1.1,2.2.2.2,23,TCP'', clock_check = 300,
          clock_reset = 301, utcnow = clock_fixed\<rparr>) = []
   \<and> start (main_step failing_report fromisoformat_sec int_ascii isoformat_sec
        \<lparr>buffer = [], start = 0, logged = [], calls = []\<rparr>
        \<lparr>line = ''2025-05-14T12:04:59,1.1.1.1,2.2.2.2,23,TCP'', clock_check = 300,
          clock_reset = 301, utcnow = clock_fixed\<rparr>) = 301
   \<and> (\<exists>pre. logged (main_step failing_report fromisoformat_sec int_ascii isoformat_sec
        \<lparr>buffer = [], start = 0, logged = [], calls = []\<rparr>
        \<lparr>line = ''2025-05-14T12:04:59,1.1.1.1,2.2.2.2,23,TCP'', clock_check = 300,
          clock_reset = 301, utcnow = clock_fixed\<rparr>) =
          pre @ [LogError ''Fel i analys/respons: disk full''])
   \<and> buffer (main_step failing_report fromisoformat_sec int_ascii isoformat_sec
        (main_step failing_report fromisoformat_sec int_ascii isoformat_sec
           \<lparr>buffer = [], start = 0, logged = [], calls = []\<rparr>
           \<lparr>line = ''2025-05-14T12:04:59,1.1.1.1,2.2.2.2,23,TCP'', clock_check = 300,
             clock_reset = 301, utcnow = clock_fixed\<rparr>)
        \<lparr>line = ''2025-05-14T12:05:02,1.1.1.1,2.2.2.2,80,TCP'', clock_check = 302,
          clock_reset = 303, utcnow = clock_fixed\<rparr>) =
       [(''2025-05-14T12:05:02'', ''1.1.1.1'', ''2.2.2.2'', 80, ''TCP'')]"
proof -
  let ?st = "\<lparr>buffer = [], start = 0, logged = [], calls = []\<rparr> :: string sched"
  let ?a = "\<lparr>line = ''2025-05-14T12:04:59,1.1.1.1,2.2.2.2,23,TCP'', clock_check = 300,
             clock_reset = 301, utcnow = clock_fixed\<rparr>"
  let ?b = "\<lparr>line = ''2025-05-14T12:05:02,1.1.1.1,2.2.2.2,80,TCP'', clock_check = 302,
             clock_reset = 303, utcnow = clock_fixed\<rparr>"
  have flush: "clock_check ?a - start ?st \<ge> ANALYSIS_INTERVAL"
    by (simp add: ANALYSIS_INTERVAL_def)
  have pa: "snd (parse_line fromisoformat_sec int_ascii ''2025-05-14T12:04:59,1.1.1.1,2.2.2.2,23,TCP'')
      = Some (''2025-05-14T12:04:59'', ''1.1.1.1'', ''2.2.2.2'', 23, ''TCP'')"
    by code_simp
  have pb: "snd (parse_line fromisoformat_sec int_ascii ''2025-05-14T12:05:02,1.1.1.1,2.2.2.2,80,TCP'')
      = Some (''2025-05-14T12:05:02'', ''1.1.1.1'', ''2.2.2.2'', 80, ''TCP'')"
    by code_simp
  have an: "analyze_window isoformat_sec clock_fixed
          [(''2025-05-14T12:04:59'', ''1.1.1.1'', ''2.2.2.2'', 23, ''TCP'')] =
     [(''2025-05-14T12:04:59'', ''1.1.1.1'', ''2.2.2.2'', PInt 23, ''TCP'', 1, ''Unusual port'')]"
    by (simp add: analyze_window_def UNUSUAL_PORTS_def CONNECTION_THRESHOLD_def VOLUME_THRESHOLD_def
        isoformat_sec_def)
  have wa: "snd (snd (window_actions failing_report isoformat_sec clock_fixed
          [(''2025-05-14T12:04:59'', ''1.1.1.1'', ''2.2.2.2'', 23, ''TCP'')])) = Inl (OSError ''disk full'')"
    by (simp add: window_actions_def an respond_def failing_report_def)
  note main = flush_resets_window_despite_failure [OF flush, of failing_report fromisoformat_sec int_ascii isoformat_sec, unfolded Let_def]
  from main have r1: "buffer (main_step failing_report fromisoformat_sec int_ascii isoformat_sec ?st ?a) = []"
    by blast
  from main have r2: "start (main_step failing_report fromisoformat_sec int_ascii isoformat_sec ?st ?a) = 301"
    by simp
  from main pa wa have r3: "\<exists>pre. logged (main_step failing_report fromisoformat_sec int_ascii isoformat_sec ?st ?a) =
          pre @ [LogError ''Fel i analys/respons: disk full'']"
    by simp
  have nb: "\<not> clock_check ?b - start (main_step failing_report fromisoformat_sec int_ascii isoformat_sec ?st ?a)
             \<ge> ANALYSIS_INTERVAL"
    by (simp add: r2 ANALYSIS_INTERVAL_def)
  from main nb pb have r4: "buffer (main_step failing_report fromisoformat_sec int_ascii isoformat_sec
        (main_step failing_report fromisoformat_sec int_ascii isoformat_sec ?st ?a) ?b) =
       [(''2025-05-14T12:05:02'', ''1.1.1.1'', ''2.2.2.2'', 80, ''TCP'')]"
    by simp
  from flush wa r1 r2 r3 r4 show ?thesis by blast
qed

section \<open>The end-to-end scenarios of the specification\<close>

text \<open>
  Scenario A: the sample line parses, and a window of that one record gives no event.
  Scenario B: 101 identical records on port 22 give one connection-count event of
  magnitude 101 and no unusual-port event; 100 give no connection-count event.
  Scenario C: one record on port 23 gives exactly one unusual-port event.
  Scenario D: the line \<^verbatim>\<open>foo,bar\<close> is refused.
\<close>

lemma scenario_A:
  "snd (parse_line fromisoformat_sec int_ascii ''2025-05-14T12:00:00,192.168.0.1,10.0.0.1,80,TCP'') =
     Some (''2025-05-14T12:00:00'', ''192.168.0.1'', ''10.0.0.1'', 80, ''TCP'')"
  "analyze_window isoformat_sec clock_fixed
     [(''2025-05-14T12:00:00'', ''192.168.0.1'', ''10.0.0.1'', 80, ''TCP'')] = []"
   apply code_simp
  apply (simp add: analyze_window_def UNUSUAL_PORTS_def CONNECTION_THRESHOLD_def VOLUME_THRESHOLD_def)
  done

lemma scenario_B:
  "map snd (filter (\<lambda>e. ev_src e = ''1.1.1.1'' \<and> ev_reason e = ''High connection count'')
     (analyze_window fmt now (replicate 101 (t, ''1.1.1.1'', ''2.2.2.2'', 22, ''TCP'')))) =
     [(''1.1.1.1'', [], PStr [], [], 101, ''High connection count'')]"
  "filter (\<lambda>e. ev_src e = ''1.1.1.1'' \<and> ev_reason e = ''High connection count'')
     (analyze_window fmt now (replicate 100 (t, ''1.1.1.1'', ''2.2.2.2'', 22, ''TCP''))) = []"
  "filter (\<lambda>e. ev_reason e = ''Unusual port'')
     (analyze_window fmt now (replicate 101 (t, ''1.1.1.1'', ''2.2.2.2'', 22, ''TCP''))) = []"
proof -
  show "map snd (filter (\<lambda>e. ev_src e = ''1.1.1.1'' \<and> ev_reason e = ''High connection count'')
     (analyze_window fmt now (replicate 101 (t, ''1.1.1.1'', ''2.2.2.2'', 22, ''TCP'')))) =
     [(''1.1.1.1'', [], PStr [], [], 101, ''High connection count'')]"
    by (simp add: conn_events_of)
  have "map snd (filter (\<lambda>e. ev_src e = ''1.1.1.1'' \<and> ev_reason e = ''High connection count'')
     (analyze_window fmt now (replicate 100 (t, ''1.1.1.1'', ''2.2.2.2'', 22, ''TCP'')))) = []"
    by (simp add: conn_events_of)
  then show "filter (\<lambda>e. ev_src e = ''1.1.1.1'' \<and> ev_reason e = ''High connection count'')
     (analyze_window fmt now (replicate 100 (t, ''1.1.1.1'', ''2.2.2.2'', 22, ''TCP''))) = []"
    by simp
  show "filter (\<lambda>e. ev_reason e = ''Unusual port'')
     (analyze_window fmt now (replicate 101 (t, ''1.1.1.1'', ''2.2.2.2'', 22, ''TCP''))) = []"
    by (simp add: unusual_part unusual_events_def UNUSUAL_PORTS_def)
qed

lemma scenario_C:
  "analyze_window fmt now [(t, ''1.1.1.1'', ''2.2.2.2'', 23, ''TCP'')] =
     [(fmt t, ''1.1.1.1'', ''2.2.2.2'', PInt 23, ''TCP'', 1, ''Unusual port'')]"
  by (simp add: analyze_window_def UNUSUAL_PORTS_def CONNECTION_THRESHOLD_def VOLUME_THRESHOLD_def)

lemma scenario_D:
  "snd (parse_line fromisoformat int_of_str ''foo,bar'') = None"
  by (simp add: parse_line_def)

end
